theory Spec2Isabelle
  imports Complex_Main "HOL-Library.Extended_Nat"
begin

section \<open>Common data: Python errors and one-dimensional tensors\<close>

text \<open>
  Every \<^verbatim>\<open>raise\<close>, failed \<^verbatim>\<open>assert\<close> and library exception of the Python
  sources is a value of \<open>error\<close>; a function that can fail returns \<open>error + 'a\<close>
  with \<open>Inl\<close> for the exception.
\<close>

datatype error =
    AssertionError
  | RuntimeError
  | ValueError
  | IndexError
  | TypeError
  | AttributeError
  | UnboundLocalError
  | ZeroDivisionError
  | NonFinite
  | FileExistsError
  | OSError

definition ebind :: "error + 'a \<Rightarrow> ('a \<Rightarrow> error + 'b) \<Rightarrow> error + 'b" where
  "ebind m f = (case m of Inl e \<Rightarrow> Inl e | Inr x \<Rightarrow> f x)"

text \<open>
  A latent code is a one-dimensional \<^verbatim>\<open>torch.Tensor\<close>
  (\<^verbatim>\<open>synthesize\<close> applies \<^verbatim>\<open>unsqueeze(1)\<close> to it, and the ledger stores it as a
  flat list of numbers). Its entries are idealised as real numbers: rounding of
  \<^verbatim>\<open>float32\<close> arithmetic, infinities and NaN are outside this model.

  \<^verbatim>\<open>t * f\<close> with a Python float \<open>f\<close> multiplies every entry. \<^verbatim>\<open>a + b\<close> and
  \<^verbatim>\<open>a - b\<close> on two one-dimensional tensors follow torch's broadcasting: equal
  lengths combine entry by entry, a tensor of length 1 is stretched to the other
  length, and any other pair of lengths raises \<^verbatim>\<open>RuntimeError\<close>. The in-place
  forms \<^verbatim>\<open>a += b\<close> and \<^verbatim>\<open>a -= b\<close> keep the shape of \<open>a\<close>, so only \<open>b\<close> may be
  stretched.
\<close>

type_synonym tensor = "real list"

definition t_scale :: "tensor \<Rightarrow> real \<Rightarrow> tensor" where
  "t_scale t f = map (\<lambda>x. x * f) t"

definition t_binop :: "(real \<Rightarrow> real \<Rightarrow> real) \<Rightarrow> tensor \<Rightarrow> tensor \<Rightarrow> error + tensor" where
  "t_binop f a b =
     (if length a = length b then Inr (map2 f a b)
      else if length a = 1 then Inr (map (f (a ! 0)) b)
      else if length b = 1 then Inr (map (\<lambda>x. f x (b ! 0)) a)
      else Inl RuntimeError)"

definition t_add :: "tensor \<Rightarrow> tensor \<Rightarrow> error + tensor" where
  "t_add a b = t_binop (+) a b"

definition t_inplace :: "(real \<Rightarrow> real \<Rightarrow> real) \<Rightarrow> tensor \<Rightarrow> tensor \<Rightarrow> error + tensor" where
  "t_inplace f a b =
     (if length a = length b then Inr (map2 f a b)
      else if length b = 1 then Inr (map (\<lambda>x. f x (b ! 0)) a)
      else Inl RuntimeError)"

definition t_iadd :: "tensor \<Rightarrow> tensor \<Rightarrow> error + tensor" where
  "t_iadd a b = t_inplace (+) a b"

definition t_isub :: "tensor \<Rightarrow> tensor \<Rightarrow> error + tensor" where
  "t_isub a b = t_inplace (-) a b"

section \<open>\<^verbatim>\<open>SynthesizerHelper.interpolate\<close>\<close>

text \<open>
  \<^verbatim>\<open>
  assert len(latent_codes) - 1 == len(factors), "..."
  if len(latent_codes) == 1:
      return latent_codes[0]
  interpolated = latent_codes[0]
  for fi, f in enumerate(factors):
      interpolated = interpolated * (1 - f) + latent_codes[fi + 1] * f
  return interpolated
  \<close>
  The \<^verbatim>\<open>for\<close> loop is \<open>interpolate_loop\<close>: \<open>fi\<close> is the counter of \<^verbatim>\<open>enumerate\<close>,
  the last argument the factors still to come. The read \<^verbatim>\<open>latent_codes[fi + 1]\<close>
  raises \<^verbatim>\<open>IndexError\<close> out of range.
\<close>

fun interpolate_loop :: "tensor list \<Rightarrow> tensor \<Rightarrow> nat \<Rightarrow> real list \<Rightarrow> error + tensor" where
  "interpolate_loop latent_codes interpolated fi [] = Inr interpolated"
| "interpolate_loop latent_codes interpolated fi (f # fs) =
     (if fi + 1 < length latent_codes then
        ebind (t_add (t_scale interpolated (1 - f)) (t_scale (latent_codes ! (fi + 1)) f))
          (\<lambda>r. interpolate_loop latent_codes r (fi + 1) fs)
      else Inl IndexError)"

definition interpolate :: "tensor list \<Rightarrow> real list \<Rightarrow> error + tensor" where
  "interpolate latent_codes factors =
     (if int (length latent_codes) - 1 \<noteq> int (length factors) then Inl AssertionError
      else if length latent_codes = 1 then Inr (latent_codes ! 0)
      else interpolate_loop latent_codes (latent_codes ! 0) 0 factors)"

text \<open>
  The left fold as the specification words it: the result starts as \<open>codes[0]\<close>, and
  for the \<open>i\<close>-th factor it becomes \<open>result * (1 - factor_i) + codes[i+1] * factor_i\<close>.
  A failed tensor operation ends the fold with its error.
\<close>

definition interpolate_fold :: "tensor list \<Rightarrow> real list \<Rightarrow> error + tensor" where
  "interpolate_fold codes factors =
     foldl (\<lambda>result i. ebind result (\<lambda>r.
              t_add (t_scale r (1 - factors ! i)) (t_scale (codes ! (i + 1)) (factors ! i))))
       (Inr (codes ! 0)) [0..<length factors]"

section \<open>Meshes: \<^verbatim>\<open>DataCreatorHelper\<close>\<close>

text \<open>
  A mesh is its vertex array (one row of three coordinates per vertex), its faces
  (triples of vertex numbers) and the source path that \<^verbatim>\<open>load_mesh\<close> records on it.
  Coordinates are idealised as reals.
\<close>

type_synonym point = "real \<times> real \<times> real"

record mesh =
  vertices :: "point list"
  faces :: "(nat \<times> nat \<times> nat) list"
  path :: string

definition px :: "point \<Rightarrow> real" where "px p = fst p"
definition py :: "point \<Rightarrow> real" where "py p = fst (snd p)"
definition pz :: "point \<Rightarrow> real" where "pz p = snd (snd p)"

definition p_sub :: "point \<Rightarrow> point \<Rightarrow> point" where
  "p_sub p q = (px p - px q, py p - py q, pz p - pz q)"

definition p_add :: "point \<Rightarrow> point \<Rightarrow> point" where
  "p_add p q = (px p + px q, py p + py q, pz p + pz q)"

definition p_scale :: "point \<Rightarrow> real \<Rightarrow> point" where
  "p_scale p c = (px p * c, py p * c, pz p * c)"

text \<open>\<^verbatim>\<open>np.linalg.norm(mesh.vertices, axis=1)\<close>: the Euclidean norm of each row.\<close>

definition p_norm :: "point \<Rightarrow> real" where
  "p_norm p = sqrt ((px p)\<^sup>2 + (py p)\<^sup>2 + (pz p)\<^sup>2)"

text \<open>
  \<^verbatim>\<open>mesh.bounds\<close>: the axis-aligned bounding box as the pair (minimum corner, maximum
  corner), and Python's \<^verbatim>\<open>None\<close> for a mesh without vertices. (The library takes the
  box over the vertices that faces refer to; a mesh it has loaded keeps no others.)
\<close>

definition bounds :: "mesh \<Rightarrow> (point \<times> point) option" where
  "bounds m =
     (if vertices m = [] then None
      else Some ((Min (set (map px (vertices m))), Min (set (map py (vertices m))),
                  Min (set (map pz (vertices m)))),
                 (Max (set (map px (vertices m))), Max (set (map py (vertices m))),
                  Max (set (map pz (vertices m))))))"

text \<open>\<^verbatim>\<open>np.mean(mesh.vertices, axis=0)\<close>: the mean of every column.\<close>

definition mean_vertices :: "mesh \<Rightarrow> point" where
  "mean_vertices m =
     (sum_list (map px (vertices m)) / real (length (vertices m)),
      sum_list (map py (vertices m)) / real (length (vertices m)),
      sum_list (map pz (vertices m)) / real (length (vertices m)))"

definition MIN_BOUND :: string where "MIN_BOUND = ''min_bound''"
definition CENTER :: string where "CENTER = ''center''"
definition CENTER_WITHOUT_Z :: string where "CENTER_WITHOUT_Z = ''center_without_z''"

subsection \<open>\<^verbatim>\<open>get_normalized_mesh\<close>\<close>

text \<open>
  \<^verbatim>\<open>
  mesh = _mesh.copy()
  if max_length is not None:
      length = max_length
  else:
      length = np.max(np.linalg.norm(mesh.vertices, axis=1))
  mesh.vertices = mesh.vertices * (1.0 / length)
  return mesh
  \<close>
  \<^verbatim>\<open>np.max\<close> of an empty array raises \<^verbatim>\<open>ValueError\<close>. \<^verbatim>\<open>1.0 / length\<close> raises
  \<^verbatim>\<open>ZeroDivisionError\<close> for the Python float 0.0; for the numpy value 0.0 that
  \<^verbatim>\<open>np.max\<close> returns it is infinite and the product is not a number, which the
  model reports as the error \<open>NonFinite\<close>.
\<close>

definition max_norm :: "mesh \<Rightarrow> real" where
  "max_norm m = Max (set (map p_norm (vertices m)))"

definition get_normalized_mesh :: "mesh \<Rightarrow> real option \<Rightarrow> error + mesh" where
  "get_normalized_mesh m max_length =
     (case max_length of
        Some length' \<Rightarrow>
          if length' = 0 then Inl ZeroDivisionError
          else Inr (m\<lparr>vertices := map (\<lambda>v. p_scale v (1 / length')) (vertices m)\<rparr>)
      | None \<Rightarrow>
          if vertices m = [] then Inl ValueError
          else if max_norm m = 0 then Inl NonFinite
          else Inr (m\<lparr>vertices := map (\<lambda>v. p_scale v (1 / max_norm m)) (vertices m)\<rparr>))"

subsection \<open>\<^verbatim>\<open>load_mesh\<close>\<close>

text \<open>
  The translation step of \<^verbatim>\<open>load_mesh\<close>:
  \<^verbatim>\<open>
  if translate_mode == DataCreatorHelper.MIN_BOUND:
      vector = mesh.bounds[0]
  elif translate_mode == DataCreatorHelper.CENTER:
      vector = np.mean(mesh.vertices, axis=0)
  elif translate_mode == DataCreatorHelper.CENTER_WITHOUT_Z:
      vector = mesh.bounds.sum(axis=0) * 0.5
      vector[2] = mesh.bounds[0][2]
  else:
      raise ValueError(f"Invalid translate mode: {translate_mode}")
  mesh.vertices -= vector
  \<close>
  Subscripting the \<^verbatim>\<open>None\<close> bounds of an empty mesh raises \<^verbatim>\<open>TypeError\<close>, reading
  its \<^verbatim>\<open>sum\<close> raises \<^verbatim>\<open>AttributeError\<close>. The mean of no vertices is not a number,
  but subtracting it from an empty vertex array leaves the array empty, as the model
  does.
\<close>

definition translate_vector :: "string \<Rightarrow> mesh \<Rightarrow> error + point" where
  "translate_vector translate_mode m =
     (if translate_mode = MIN_BOUND then
        (case bounds m of None \<Rightarrow> Inl TypeError | Some (lo, hi) \<Rightarrow> Inr lo)
      else if translate_mode = CENTER then Inr (mean_vertices m)
      else if translate_mode = CENTER_WITHOUT_Z then
        (case bounds m of
           None \<Rightarrow> Inl AttributeError
         | Some (lo, hi) \<Rightarrow> Inr (px (p_scale (p_add lo hi) (1 / 2)),
                                py (p_scale (p_add lo hi) (1 / 2)), pz lo))
      else Inl ValueError)"

definition translate :: "string \<Rightarrow> mesh \<Rightarrow> error + mesh" where
  "translate translate_mode m =
     ebind (translate_vector translate_mode m)
       (\<lambda>vector. Inr (m\<lparr>vertices := map (\<lambda>v. p_sub v vector) (vertices m)\<rparr>))"

text \<open>
  \<^verbatim>\<open>load_mesh\<close> itself. Reading the file (with the concatenation of a scene and
  \<^verbatim>\<open>fix_normals\<close>), the watertightness test and the watertight repair are the
  geometry libraries' work and are parameters here; the axis swap, the translation,
  the optional normalisation and the recorded path are the function's own.
\<close>

definition swap_y_z :: "point \<Rightarrow> point" where
  "swap_y_z p = (px p, pz p, py p)"

definition load_mesh ::
  "(string \<Rightarrow> error + mesh) \<Rightarrow> (mesh \<Rightarrow> bool) \<Rightarrow> (mesh \<Rightarrow> error + mesh) \<Rightarrow>
   string \<Rightarrow> bool \<Rightarrow> bool \<Rightarrow> bool \<Rightarrow> real option \<Rightarrow> string \<Rightarrow> error + mesh" where
  "load_mesh trimesh_load is_watertight make_mesh_watertight
     path' normalize' map_z_to_y check_watertight max_length translate_mode =
     ebind (trimesh_load path') (\<lambda>m0.
     ebind (if check_watertight \<and> \<not> is_watertight m0 then make_mesh_watertight m0 else Inr m0) (\<lambda>m1.
     ebind (Inr (if map_z_to_y then m1\<lparr>vertices := map swap_y_z (vertices m1)\<rparr> else m1)) (\<lambda>m2.
     ebind (translate translate_mode m2) (\<lambda>m3.
     ebind (if normalize' then get_normalized_mesh m3 max_length else Inr m3) (\<lambda>m4.
     Inr (m4\<lparr>path := path'\<rparr>))))))"

subsection \<open>\<^verbatim>\<open>sample_pts\<close>\<close>

text \<open>
  The random draws of numpy are inputs of the model: \<open>standard_normal i\<close> is the
  \<open>i\<close>-th row of standard normal draws behind \<^verbatim>\<open>np.random.normal\<close>,
  \<open>random_bbox i\<close> and \<open>random_volume i\<close> the \<open>i\<close>-th rows of the draws from \<open>[0, 1)\<close>
  behind \<^verbatim>\<open>np.random.uniform\<close> and \<^verbatim>\<open>np.random.rand\<close>. numpy computes
  \<^verbatim>\<open>normal(loc, scale)\<close> as \<open>loc + scale * z\<close> and \<^verbatim>\<open>uniform(low, high)\<close> as
  \<open>low + (high - low) * u\<close>, coordinate by coordinate; a negative scale and a negative
  size raise \<^verbatim>\<open>ValueError\<close>.
\<close>

record rng =
  standard_normal :: "nat \<Rightarrow> point"
  random_bbox :: "nat \<Rightarrow> point"
  random_volume :: "nat \<Rightarrow> point"

definition p_mul :: "point \<Rightarrow> point \<Rightarrow> point" where
  "p_mul p q = (px p * px q, py p * py q, pz p * pz q)"

definition np_random_normal :: "rng \<Rightarrow> real \<Rightarrow> nat \<Rightarrow> error + point list" where
  "np_random_normal g scale rows =
     (if scale < 0 then Inl ValueError
      else Inr (map (\<lambda>i. p_scale (standard_normal g i) scale) [0..<rows]))"

definition np_random_uniform :: "rng \<Rightarrow> point \<Rightarrow> point \<Rightarrow> int \<Rightarrow> error + point list" where
  "np_random_uniform g low high rows =
     (if rows < 0 then Inl ValueError
      else Inr (map (\<lambda>i. p_add low (p_mul (p_sub high low) (random_bbox g i))) [0..<nat rows]))"

definition np_random_rand :: "rng \<Rightarrow> int \<Rightarrow> error + point list" where
  "np_random_rand g rows =
     (if rows < 0 then Inl ValueError else Inr (map (random_volume g) [0..<nat rows]))"

text \<open>
  \<^verbatim>\<open>
  if not with_surface_points_noise:
      sigma = 0
  surface_points_sampled, _ = trimesh.sample.sample_surface(mesh, n_surface_sampling)
  surface_points_sampled += np.random.normal(0, sigma, surface_points_sampled.shape)
  bbox_points_sampled = np.random.uniform(low=mesh.bounds[0], high=mesh.bounds[1],
                                          size=[n_bbox_sampling, 3])
  volume_points_sampled = np.random.rand(n_volume_sampling, 3)
  xyz = np.concatenate([surface_points_sampled, bbox_points_sampled,
                        volume_points_sampled], axis=0)
  return xyz
  \<close>
  The surface sampler of the geometry library is the parameter \<open>sample_surface\<close>.
\<close>

definition sample_pts ::
  "(mesh \<Rightarrow> int \<Rightarrow> error + point list) \<Rightarrow> rng \<Rightarrow> mesh \<Rightarrow> int \<Rightarrow> int \<Rightarrow> int \<Rightarrow> real \<Rightarrow> bool
   \<Rightarrow> error + point list" where
  "sample_pts sample_surface g m n_surface_sampling n_bbox_sampling n_volume_sampling
     sigma with_surface_points_noise =
     ebind (sample_surface m n_surface_sampling) (\<lambda>surface_points_sampled.
     ebind (np_random_normal g (if \<not> with_surface_points_noise then 0 else sigma)
              (length surface_points_sampled)) (\<lambda>noise.
     ebind (case bounds m of
              None \<Rightarrow> Inl TypeError
            | Some (lo, hi) \<Rightarrow> np_random_uniform g lo hi n_bbox_sampling) (\<lambda>bbox_points_sampled.
     ebind (np_random_rand g n_volume_sampling) (\<lambda>volume_points_sampled.
     Inr (map2 p_add surface_points_sampled noise @ bbox_points_sampled
          @ volume_points_sampled)))))"

text \<open>The closed unit cube \<open>[0, 1]\<^sup>3\<close>.\<close>

definition in_unit_cube :: "point \<Rightarrow> bool" where
  "in_unit_cube p \<longleftrightarrow> 0 \<le> px p \<and> px p \<le> 1 \<and> 0 \<le> py p \<and> py p \<le> 1 \<and> 0 \<le> pz p \<and> pz p \<le> 1"

section \<open>Strings: \<^verbatim>\<open>str\<close>, \<^verbatim>\<open>int\<close>, \<^verbatim>\<open>split\<close>, \<^verbatim>\<open>replace\<close>, \<^verbatim>\<open>os.path.join\<close>\<close>

text \<open>
  File names are ASCII strings. \<open>str_int\<close> is Python's \<^verbatim>\<open>str\<close> on an integer: the
  decimal digits, with a leading minus sign for a negative number.
\<close>

definition digit_char :: "nat \<Rightarrow> char" where
  "digit_char d = ''0123456789'' ! d"

fun str_nat :: "nat \<Rightarrow> string" where
  "str_nat n = (if n < 10 then [digit_char n] else str_nat (n div 10) @ [digit_char (n mod 10)])"

declare str_nat.simps [simp del]

definition str_int :: "int \<Rightarrow> string" where
  "str_int i = (if i < 0 then CHR ''-'' # str_nat (nat (- i)) else str_nat (nat i))"

text \<open>
  \<open>py_int\<close> is Python's \<^verbatim>\<open>int\<close> on an ASCII string: white space around the number is
  dropped, one sign may lead, and the digits may be separated by single underscores;
  anything else raises \<^verbatim>\<open>ValueError\<close>.
\<close>

definition is_digit :: "char \<Rightarrow> bool" where
  "is_digit c \<longleftrightarrow> c \<in> set ''0123456789''"

definition digit_val :: "char \<Rightarrow> nat" where
  "digit_val c = of_char c - 48"

definition is_space :: "char \<Rightarrow> bool" where
  "is_space c \<longleftrightarrow> c = CHR '' '' \<or> (9 \<le> (of_char c :: nat) \<and> (of_char c :: nat) \<le> 13)
     \<or> (28 \<le> (of_char c :: nat) \<and> (of_char c :: nat) \<le> 31)"

definition strip :: "string \<Rightarrow> string" where
  "strip s = rev (dropWhile is_space (rev (dropWhile is_space s)))"

fun parse_digits :: "nat \<Rightarrow> string \<Rightarrow> nat option" where
  "parse_digits acc [] = Some acc"
| "parse_digits acc [c] = (if is_digit c then Some (10 * acc + digit_val c) else None)"
| "parse_digits acc (c # d # ds) =
     (if is_digit c then parse_digits (10 * acc + digit_val c) (d # ds)
      else if c = CHR ''_'' \<and> is_digit d then parse_digits (10 * acc + digit_val d) ds
      else None)"

definition parse_unsigned :: "string \<Rightarrow> nat option" where
  "parse_unsigned s =
     (case s of [] \<Rightarrow> None
      | c # cs \<Rightarrow> if is_digit c then parse_digits (digit_val c) cs else None)"

definition py_int :: "string \<Rightarrow> error + int" where
  "py_int s =
     (case strip s of
        [] \<Rightarrow> Inl ValueError
      | c # cs \<Rightarrow>
          if c = CHR ''-'' then
            (case parse_unsigned cs of None \<Rightarrow> Inl ValueError | Some n \<Rightarrow> Inr (- int n))
          else if c = CHR ''+'' then
            (case parse_unsigned cs of None \<Rightarrow> Inl ValueError | Some n \<Rightarrow> Inr (int n))
          else
            (case parse_unsigned (c # cs) of None \<Rightarrow> Inl ValueError | Some n \<Rightarrow> Inr (int n)))"

text \<open>
  \<open>py_split\<close> is \<^verbatim>\<open>s.split("__")\<close>: the pieces between the occurrences of the
  separator, found from left to right without overlap. \<open>remove_obj\<close> is
  \<^verbatim>\<open>s.replace(".obj", "")\<close> and \<open>dot_to_dash\<close> is \<^verbatim>\<open>s.replace('.', '-')\<close>.
\<close>

fun split_dunder :: "string \<Rightarrow> string \<Rightarrow> string list" where
  "split_dunder cur [] = [cur]"
| "split_dunder cur [c] = [cur @ [c]]"
| "split_dunder cur (c # d # cs) =
     (if c = CHR ''_'' \<and> d = CHR ''_'' then cur # split_dunder [] cs
      else split_dunder (cur @ [c]) (d # cs))"

definition py_split :: "string \<Rightarrow> string list" where
  "py_split s = split_dunder [] s"

fun remove_obj :: "string \<Rightarrow> string" where
  "remove_obj (a # b # c # d # cs) =
     (if [a, b, c, d] = ''.obj'' then remove_obj cs else a # remove_obj (b # c # d # cs))"
| "remove_obj cs = cs"

definition dot_to_dash :: "string \<Rightarrow> string" where
  "dot_to_dash s = map (\<lambda>c. if c = CHR ''.'' then CHR ''-'' else c) s"

text \<open>
  The interpolation factor is \<^verbatim>\<open>round(0.25 + (0.75 - 0.25) * u, 3)\<close> for a draw \<open>u\<close>:
  a number of thousandths. \<open>str_thousandths k\<close> is Python's \<^verbatim>\<open>str\<close> of the float
  nearest to \<open>k / 1000\<close>: the integer part, a point, and the decimals without trailing
  zeros but at least one of them (\<^verbatim>\<open>0.5\<close>, \<^verbatim>\<open>0.25\<close>, \<^verbatim>\<open>0.333\<close>).
\<close>

definition str_thousandths :: "int \<Rightarrow> string" where
  "str_thousandths k =
     (let a = nat \<bar>k\<bar>;
          d1 = (a mod 1000) div 100; d2 = (a mod 100) div 10; d3 = a mod 10
      in (if k < 0 then ''-'' else []) @ str_nat (a div 1000) @ ''.''
         @ map digit_char (if d3 \<noteq> 0 then [d1, d2, d3] else if d2 \<noteq> 0 then [d1, d2] else [d1]))"

text \<open>\<^verbatim>\<open>os.path.join(a, b)\<close> on POSIX paths.\<close>

definition os_path_join :: "string \<Rightarrow> string \<Rightarrow> string" where
  "os_path_join a b =
     (if b \<noteq> [] \<and> hd b = CHR ''/'' then b
      else if a = [] \<or> last a = CHR ''/'' then a @ b
      else a @ ''/'' @ b)"

section \<open>The synthesis ledger: \<^verbatim>\<open>synthesize.py\<close>\<close>

subsection \<open>Records, the decoder and the world outside\<close>

text \<open>
  A ledger record is the dictionary
  \<^verbatim>\<open>{"name": ..., "index": ..., "synthesis_type": ..., "latent_code": ...}\<close>. The name of
  a seeded record is the integer \<open>i\<close> itself, the name of a synthesised record is the
  file name, so the field holds either.
\<close>

datatype pyname = IntName int | StrName string

record synthesis_record =
  name :: pyname
  index :: int
  synthesis_type :: string
  latent_code :: tensor

text \<open>
  The decoder (\<^verbatim>\<open>deep_sdf.src.model.SDFdecoder\<close>) is used through its table of
  pretrained latent codes and its forward call on a batch of rows
  \<open>[latent code, x, y, z]\<close>. The grid generator \<^verbatim>\<open>get_volume_coords\<close> and the mesh
  extraction \<^verbatim>\<open>extract_mesh\<close> come from \<^verbatim>\<open>ReconstructorHelper\<close>. All three are
  parameters of the model.
\<close>

record sdf_decoder =
  latent_codes :: "tensor list"
  forward :: "tensor list \<Rightarrow> error + tensor list"

record reconstructor =
  get_volume_coords :: "int \<Rightarrow> error + (tensor list \<times> int)"
  extract_mesh :: "int \<Rightarrow> tensor list \<Rightarrow> bool \<Rightarrow> bool \<Rightarrow> bool \<Rightarrow> error + mesh option"

text \<open>
  The state of a synthesis run: the ledger in memory
  (\<^verbatim>\<open>synthesized_latent_codes["data"]\<close>), the files on disk, and a log of the
  calls that leave the process: each forward call of the decoder (with its batch
  size), each \<^verbatim>\<open>mesh.export\<close> and each \<^verbatim>\<open>np.savez\<close>. Writing a file is taken to
  succeed.
\<close>

datatype disk_file = Directory | ObjFile mesh | NpzFile "synthesis_record list"

datatype event = DecoderCall nat | Export string | Savez string

record state =
  data :: "synthesis_record list"
  files :: "string \<Rightarrow> disk_file option"
  events :: "event list"

text \<open>
  Every random draw of an iteration is an input: the draw that chooses the operation
  (line 239), the draw that restricts the candidates to the pretrained codes (lines 63
  and 103), the numbers behind \<^verbatim>\<open>random.sample\<close>, and the draw behind the
  interpolation factor (line 80). The source seeds a fresh generator from the clock for
  each of them; the model lets each draw be any value.
\<close>

record draws =
  operation_draw :: real
  restrict_draw :: real
  sample_draw :: "nat \<Rightarrow> nat"
  factor_draw :: real

text \<open>
  \<^verbatim>\<open>random.sample(population, k)\<close> chooses \<open>k\<close> positions without replacement and
  raises \<^verbatim>\<open>ValueError\<close> when the population is smaller than \<open>k\<close>. The \<open>i\<close>-th choice
  takes the element at position \<open>r\<^sub>i mod n\<close> of the \<open>n\<close> elements not chosen so far.
\<close>

fun sample_from :: "'a list \<Rightarrow> nat list \<Rightarrow> 'a list" where
  "sample_from population [] = []"
| "sample_from population (r # rs) =
     population ! (r mod length population)
       # sample_from (take (r mod length population) population
                      @ drop (Suc (r mod length population)) population) rs"

definition random_sample :: "(nat \<Rightarrow> nat) \<Rightarrow> 'a list \<Rightarrow> nat \<Rightarrow> error + 'a list" where
  "random_sample rnd population k =
     (if length population < k then Inl ValueError
      else Inr (sample_from population (map rnd [0..<k])))"

subsection \<open>\<^verbatim>\<open>random_interpolation_synthesis\<close>\<close>

text \<open>
  \<^verbatim>\<open>
  data_to_sample = latent_codes_data["data"]
  if random.Random(time.time()).random() < 0.5:
      data_to_sample = data_to_sample[: len(sdf_decoder.latent_codes)]
  data_to_sample = [rd for rd in data_to_sample if rd["synthesis_type"] != "arithmetic"]
  data_1, data_2 = random.Random(time.time()).sample(data_to_sample, 2)
  ...
  selected_indices = f"{latent_code_1_index}__{latent_code_2_index}"
  random_interpolation_factor = round(0.25 + (0.75 - 0.25) * random.Random(time.time()).random(), 3)
  synthesized_latent_code = self.interpolate(
      latent_codes=[latent_code_1, latent_code_2], factors=[random_interpolation_factor])
  return selected_indices, random_interpolation_factor, synthesized_latent_code
  \<close>
  The factor is returned as its number of thousandths.
\<close>

definition random_interpolation_synthesis ::
  "sdf_decoder \<Rightarrow> draws \<Rightarrow> synthesis_record list \<Rightarrow> error + (string \<times> int \<times> tensor)" where
  "random_interpolation_synthesis dec dr latent_codes_data =
     (let data_to_sample =
            (if restrict_draw dr < 1 / 2 then take (length (latent_codes dec)) latent_codes_data
             else latent_codes_data);
          data_to_sample = filter (\<lambda>rd. synthesis_type rd \<noteq> ''arithmetic'') data_to_sample
      in ebind (random_sample (sample_draw dr) data_to_sample 2) (\<lambda>picked.
         let data_1 = picked ! 0; data_2 = picked ! 1;
             selected_indices = str_int (index data_1) @ ''__'' @ str_int (index data_2);
             random_interpolation_factor =
               round (1000 * (1 / 4 + (3 / 4 - 1 / 4) * factor_draw dr))
         in ebind (interpolate [latent_code data_1, latent_code data_2]
                     [real_of_int random_interpolation_factor / 1000]) (\<lambda>synthesized_latent_code.
            Inr (selected_indices, random_interpolation_factor, synthesized_latent_code))))"

subsection \<open>\<^verbatim>\<open>random_arithmetic_operations_synthesis\<close>\<close>

text \<open>
  \<^verbatim>\<open>
  data_to_sample = latent_codes_data["data"]
  if random.Random(time.time()).random() < 0.5:
      data_to_sample = data_to_sample[: len(sdf_decoder.latent_codes)]
  data_to_sample = [rd for rd in data_to_sample if rd["synthesis_type"] != "interpolation"]
  random_data = random.Random(time.time()).sample(data_to_sample, 3)
  selected_indices = str(random_data[0]["index"])
  synthesized_latent_code = torch.tensor(random_data[0]["latent_code"])
  for rdi, rd in enumerate(random_data[1:]):
      if rdi != len(random_data[1:]) - 1:
          synthesized_latent_code += torch.tensor(rd["latent_code"])
      else:
          synthesized_latent_code -= torch.tensor(rd["latent_code"])
      selected_indices += "__" + str(rd["index"])
  return selected_indices, synthesized_latent_code
  \<close>
  \<open>arithmetic_loop\<close> is the \<^verbatim>\<open>for\<close> loop: \<open>rdi\<close> is the counter, \<open>n\<close> is
  \<^verbatim>\<open>len(random_data[1:])\<close>.
\<close>

fun arithmetic_loop ::
  "nat \<Rightarrow> nat \<Rightarrow> synthesis_record list \<Rightarrow> string \<Rightarrow> tensor \<Rightarrow> error + (string \<times> tensor)" where
  "arithmetic_loop rdi n [] selected_indices synthesized_latent_code =
     Inr (selected_indices, synthesized_latent_code)"
| "arithmetic_loop rdi n (rd # rds) selected_indices synthesized_latent_code =
     ebind (if int rdi \<noteq> int n - 1 then t_iadd synthesized_latent_code (latent_code rd)
            else t_isub synthesized_latent_code (latent_code rd)) (\<lambda>code.
     arithmetic_loop (rdi + 1) n rds (selected_indices @ ''__'' @ str_int (index rd)) code)"

definition random_arithmetic_operations_synthesis ::
  "sdf_decoder \<Rightarrow> draws \<Rightarrow> synthesis_record list \<Rightarrow> error + (string \<times> tensor)" where
  "random_arithmetic_operations_synthesis dec dr latent_codes_data =
     (let data_to_sample =
            (if restrict_draw dr < 1 / 2 then take (length (latent_codes dec)) latent_codes_data
             else latent_codes_data);
          data_to_sample = filter (\<lambda>rd. synthesis_type rd \<noteq> ''interpolation'') data_to_sample
      in ebind (random_sample (sample_draw dr) data_to_sample 3) (\<lambda>random_data.
         arithmetic_loop 0 (length (tl random_data)) (tl random_data)
           (str_int (index (random_data ! 0))) (latent_code (random_data ! 0))))"

subsection \<open>\<^verbatim>\<open>synthesize\<close>\<close>

text \<open>
  \<^verbatim>\<open>torch.split(t, split_size)\<close> cuts the rows of \<open>t\<close> into chunks of \<open>split_size\<close>
  rows, the last one shorter when the rows do not divide evenly, and always returns at
  least one chunk. A negative size raises \<^verbatim>\<open>RuntimeError\<close>; so does the size 0
  unless \<open>t\<close> has no rows ("split_size can only be 0 if dimension size is 0"), in which
  case the one chunk is \<open>t\<close> itself.
\<close>

function chunks :: "nat \<Rightarrow> 'a list \<Rightarrow> 'a list list" where
  "chunks n xs = (if n = 0 \<or> length xs \<le> n then [xs] else take n xs # chunks n (drop n xs))"
  by pat_completeness auto
termination
  by (relation "measure (\<lambda>(n, xs). length xs)") auto

declare chunks.simps [simp del]

definition torch_split :: "'a list \<Rightarrow> int \<Rightarrow> error + 'a list list" where
  "torch_split t split_size =
     (if split_size < 0 then Inl RuntimeError
      else if split_size = 0 then (if t = [] then Inr [t] else Inl RuntimeError)
      else Inr (chunks (nat split_size) t))"

text \<open>
  \<^verbatim>\<open>
  coords, grid_size_axis = self.get_volume_coords(resolution=resolution)
  coords.to(self.DEVICE)
  coords_batches = torch.split(coords, coords.shape[0] // 1000)
  sdf = torch.tensor([]).to(self.DEVICE)
  for coords_batch in tqdm(coords_batches, ...):
      interpolated_repeat = latent_code.unsqueeze(1).repeat(1, coords_batch.shape[0]).transpose(0, 1)
      cxyz_1 = torch.cat([interpolated_repeat, coords_batch], dim=1)
      pred = sdf_decoder(None, None, cxyz_1)
      if sum(sdf.shape) == 0:
          sdf = pred
      else:
          sdf = torch.vstack([sdf, pred])
  mesh = self.extract_mesh(grid_size_axis=grid_size_axis, sdf=sdf, normalize=normalize,
                           map_z_to_y=map_z_to_y, check_watertight=check_watertight)
  if mesh is not None and save_name is not None:
      mesh.export(save_name)
  return mesh
  \<close>
  A two-dimensional tensor is the list of its rows. \<open>decode_batches\<close> is the \<^verbatim>\<open>for\<close>
  loop; it carries \<open>sdf\<close> and the log of events.
\<close>

fun decode_batches ::
  "sdf_decoder \<Rightarrow> tensor \<Rightarrow> tensor list list \<Rightarrow> tensor list \<Rightarrow> event list
   \<Rightarrow> error + (tensor list \<times> event list)" where
  "decode_batches dec lc [] sdf ev = Inr (sdf, ev)"
| "decode_batches dec lc (coords_batch # rest) sdf ev =
     ebind (forward dec (map (\<lambda>xyz. lc @ xyz) coords_batch)) (\<lambda>pred.
     decode_batches dec lc rest (if sdf = [] then pred else sdf @ pred)
       (ev @ [DecoderCall (length coords_batch)]))"

definition synthesize ::
  "reconstructor \<Rightarrow> sdf_decoder \<Rightarrow> tensor \<Rightarrow> string option \<Rightarrow> int \<Rightarrow> bool \<Rightarrow> bool \<Rightarrow> bool \<Rightarrow> state
   \<Rightarrow> error + (mesh option \<times> state)" where
  "synthesize rc dec lc save_name resolution normalize' map_z_to_y check_watertight s =
     ebind (get_volume_coords rc resolution) (\<lambda>(coords, grid_size_axis).
     ebind (torch_split coords (int (length coords) div 1000)) (\<lambda>coords_batches.
     ebind (decode_batches dec lc coords_batches [] (events s)) (\<lambda>(sdf, ev).
     ebind (extract_mesh rc grid_size_axis sdf normalize' map_z_to_y check_watertight) (\<lambda>m.
     Inr (m, case (m, save_name) of
               (Some msh, Some n) \<Rightarrow>
                 s\<lparr>files := (files s)(n \<mapsto> ObjFile msh), events := ev @ [Export n]\<rparr>
             | _ \<Rightarrow> s\<lparr>events := ev\<rparr>)))))"

subsection \<open>\<^verbatim>\<open>infinite_synthesis\<close>\<close>

definition ledger_path :: "string \<Rightarrow> string" where
  "ledger_path save_dir = os_path_join save_dir ''infinite_synthesized_latent_codes.npz''"

text \<open>
  The first half of an iteration (lines 239 to 261) derives the candidate: the
  synthesis type, the file name and the latent code.
\<close>

definition candidate ::
  "sdf_decoder \<Rightarrow> draws \<Rightarrow> synthesis_record list \<Rightarrow> error + (string \<times> string \<times> tensor)" where
  "candidate dec dr latent_codes_data =
     (if operation_draw dr < 1 / 2 then
        ebind (random_arithmetic_operations_synthesis dec dr latent_codes_data)
          (\<lambda>(selected_indices, synthesized_latent_code).
             Inr (''arithmetic'', selected_indices @ ''.obj'', synthesized_latent_code))
      else
        ebind (random_interpolation_synthesis dec dr latent_codes_data)
          (\<lambda>(selected_indices, random_interpolation_factor, synthesized_latent_code).
             Inr (''interpolation'',
                  selected_indices @ ''__''
                    @ dot_to_dash (str_thousandths random_interpolation_factor) @ ''.obj'',
                  synthesized_latent_code)))"

text \<open>
  The second half (lines 263 to 287):
  \<^verbatim>\<open>
  if os.path.exists(save_name):
      continue
  _ = synthesizer.synthesize(sdf_decoder=sdf_decoder, latent_code=synthesized_latent_code,
                             resolution=resolution, save_name=save_name,
                             map_z_to_y=map_z_to_y, check_watertight=check_watertight)
  synthesized_data = {"name": name, "index": len(synthesized_latent_codes["data"]),
                      "synthesis_type": synthesis_type, "latent_code": list(...)}
  synthesized_latent_codes["data"].append(synthesized_data)
  np.savez(synthesized_latent_codes_path,
           synthesized_data=np.array(synthesized_latent_codes["data"]))
  \<close>
  The result says whether the iteration left through \<^verbatim>\<open>continue\<close> (\<open>Skipped\<close>) or ran
  to its end (\<open>Extended\<close>).
\<close>

datatype outcome = Skipped | Extended

definition iteration ::
  "reconstructor \<Rightarrow> sdf_decoder \<Rightarrow> string \<Rightarrow> int \<Rightarrow> bool \<Rightarrow> bool \<Rightarrow> draws \<Rightarrow> state
   \<Rightarrow> error + (outcome \<times> state)" where
  "iteration rc dec save_dir resolution map_z_to_y check_watertight dr s =
     ebind (candidate dec dr (data s)) (\<lambda>(synthesis_type', name', synthesized_latent_code).
       if files s (os_path_join save_dir name') \<noteq> None then Inr (Skipped, s)
       else
         ebind (synthesize rc dec synthesized_latent_code (Some (os_path_join save_dir name'))
                  resolution True map_z_to_y check_watertight s) (\<lambda>(mesh', s1).
         Inr (Extended,
              s1\<lparr>data := data s1 @ [\<lparr>name = StrName name', index = int (length (data s1)),
                                      synthesis_type = synthesis_type',
                                      latent_code = synthesized_latent_code\<rparr>],
                 files := (files s1)(ledger_path save_dir \<mapsto>
                            NpzFile (data s1 @ [\<lparr>name = StrName name',
                                                 index = int (length (data s1)),
                                                 synthesis_type = synthesis_type',
                                                 latent_code = synthesized_latent_code\<rparr>])),
                 events := events s1 @ [Savez (ledger_path save_dir)]\<rparr>)))"

text \<open>
  The \<^verbatim>\<open>while len(synthesized_latent_codes["data"]) < synthesis_count\<close> loop, run on
  the draws of finitely many iterations: the result is the state reached when the draws
  are used up or the count is reached, with the outcome of every iteration that ran. An
  exception in an iteration ends the run. \<open>synthesis_count\<close> is a number or
  \<^verbatim>\<open>np.inf\<close>.
\<close>

fun synthesis_loop ::
  "reconstructor \<Rightarrow> sdf_decoder \<Rightarrow> string \<Rightarrow> enat \<Rightarrow> int \<Rightarrow> bool \<Rightarrow> bool \<Rightarrow> draws list \<Rightarrow> state
   \<Rightarrow> error + (outcome list \<times> state)" where
  "synthesis_loop rc dec save_dir synthesis_count resolution map_z_to_y check_watertight [] s =
     Inr ([], s)"
| "synthesis_loop rc dec save_dir synthesis_count resolution map_z_to_y check_watertight (dr # drs) s =
     (if enat (length (data s)) < synthesis_count then
        ebind (iteration rc dec save_dir resolution map_z_to_y check_watertight dr s) (\<lambda>(out, s1).
        ebind (synthesis_loop rc dec save_dir synthesis_count resolution map_z_to_y
                 check_watertight drs s1) (\<lambda>(outs, s2).
        Inr (out # outs, s2)))
      else Inr ([], s))"

text \<open>
  The start of \<^verbatim>\<open>infinite_synthesis\<close>: \<^verbatim>\<open>os.makedirs(save_dir, exist_ok=True)\<close>, the
  seeded ledger with one \<^verbatim>\<open>"initial"\<close> record per pretrained latent code, replaced by
  the ledger file when there is one, and then the loop.
\<close>

definition os_makedirs :: "(string \<Rightarrow> disk_file option) \<Rightarrow> string \<Rightarrow> error + (string \<Rightarrow> disk_file option)" where
  "os_makedirs fs dir =
     (case fs dir of
        None \<Rightarrow> Inr (fs(dir \<mapsto> Directory))
      | Some Directory \<Rightarrow> Inr fs
      | Some _ \<Rightarrow> Inl FileExistsError)"

definition seed_ledger :: "sdf_decoder \<Rightarrow> synthesis_record list" where
  "seed_ledger dec =
     map (\<lambda>(i, lc). \<lparr>name = IntName (int i), index = int i, synthesis_type = ''initial'',
                     latent_code = lc\<rparr>)
       (List.enumerate 0 (latent_codes dec))"

definition infinite_synthesis ::
  "reconstructor \<Rightarrow> sdf_decoder \<Rightarrow> string \<Rightarrow> enat \<Rightarrow> int \<Rightarrow> bool \<Rightarrow> bool \<Rightarrow> draws list
   \<Rightarrow> (string \<Rightarrow> disk_file option) \<Rightarrow> error + (outcome list \<times> state)" where
  "infinite_synthesis rc dec save_dir synthesis_count resolution map_z_to_y check_watertight drs fs =
     ebind (os_makedirs fs save_dir) (\<lambda>fs1.
     ebind (case fs1 (ledger_path save_dir) of
              None \<Rightarrow> Inr (seed_ledger dec)
            | Some (NpzFile synthesized_data) \<Rightarrow> Inr synthesized_data
            | Some _ \<Rightarrow> Inl OSError) (\<lambda>ledger.
     synthesis_loop rc dec save_dir synthesis_count resolution map_z_to_y check_watertight drs
       \<lparr>data = ledger, files = fs1, events = []\<rparr>))"

subsection \<open>\<^verbatim>\<open>trace_back_to_origin\<close>\<close>

text \<open>
  \<^verbatim>\<open>latent_codes_data[current_index]\<close> on a numpy array: a negative index counts from
  the end, an index out of range raises \<^verbatim>\<open>IndexError\<close>.
\<close>

definition np_getitem :: "'a list \<Rightarrow> int \<Rightarrow> error + 'a" where
  "np_getitem xs i =
     (if 0 \<le> i \<and> i < int (length xs) then Inr (xs ! nat i)
      else if i < 0 \<and> 0 \<le> int (length xs) + i then Inr (xs ! nat (int (length xs) + i))
      else Inl IndexError)"

text \<open>A list comprehension whose element expression can raise.\<close>

fun emap :: "('a \<Rightarrow> error + 'b) \<Rightarrow> 'a list \<Rightarrow> error + 'b list" where
  "emap f [] = Inr []"
| "emap f (x # xs) = ebind (f x) (\<lambda>y. ebind (emap f xs) (\<lambda>ys. Inr (y # ys)))"

text \<open>
  The two assignments to \<^verbatim>\<open>indices\<close>:
  \<^verbatim>\<open>
  elif synthesis_type == "interpolation":
      indices = [int(i) for i in current_data["name"].split("__")[:-1]]
  elif synthesis_type == "arithmetic":
      indices = [int(i.replace(".obj", "")) for i in current_data["name"].split("__")]
  \<close>
  An integer name has no \<^verbatim>\<open>split\<close>: \<^verbatim>\<open>AttributeError\<close>.
\<close>

definition name_split :: "pyname \<Rightarrow> error + string list" where
  "name_split n = (case n of IntName i \<Rightarrow> Inl AttributeError | StrName s \<Rightarrow> Inr (py_split s))"

definition interpolation_indices :: "synthesis_record \<Rightarrow> error + int list" where
  "interpolation_indices current_data =
     ebind (name_split (name current_data)) (\<lambda>pieces. emap py_int (butlast pieces))"

definition arithmetic_indices :: "synthesis_record \<Rightarrow> error + int list" where
  "arithmetic_indices current_data =
     ebind (name_split (name current_data)) (\<lambda>pieces. emap (\<lambda>i. py_int (remove_obj i)) pieces)"

text \<open>
  One pass through the body of the \<^verbatim>\<open>while queue:\<close> loop, for a queue that is not
  empty:
  \<^verbatim>\<open>
  current_index = queue.popleft()
  current_data = latent_codes_data[current_index]
  synthesis_type = current_data["synthesis_type"]
  traced_data.append(current_data)
  if synthesis_type == "initial":
      continue
  elif synthesis_type == "interpolation": ...
  elif synthesis_type == "arithmetic": ...
  queue.extend(indices)
  \<close>
  The state is the queue, \<^verbatim>\<open>traced_data\<close> and the variable \<^verbatim>\<open>indices\<close>, which is
  unbound (\<open>None\<close>) until its first assignment and keeps its value from one pass to the
  next: for a record of any other type \<^verbatim>\<open>queue.extend(indices)\<close> reads the old value,
  or raises \<^verbatim>\<open>UnboundLocalError\<close>.
\<close>

definition trace_step ::
  "synthesis_record list \<Rightarrow> int list \<times> synthesis_record list \<times> int list option
   \<Rightarrow> error + (int list \<times> synthesis_record list \<times> int list option)" where
  "trace_step latent_codes_data st =
     (case st of (queue, traced_data, indices) \<Rightarrow>
        ebind (np_getitem latent_codes_data (hd queue)) (\<lambda>current_data.
          if synthesis_type current_data = ''initial'' then
            Inr (tl queue, traced_data @ [current_data], indices)
          else
            ebind (if synthesis_type current_data = ''interpolation'' then
                     ebind (interpolation_indices current_data) (\<lambda>is. Inr (Some is))
                   else if synthesis_type current_data = ''arithmetic'' then
                     ebind (arithmetic_indices current_data) (\<lambda>is. Inr (Some is))
                   else Inr indices) (\<lambda>indices'.
            case indices' of
              None \<Rightarrow> Inl UnboundLocalError
            | Some is \<Rightarrow> Inr (tl queue @ is, traced_data @ [current_data], indices'))))"

text \<open>
  The loop may run forever (a record can name itself as its parent), so its result
  is an option: \<open>None\<close> when it does not return.
\<close>

partial_function (option) trace_loop ::
  "synthesis_record list \<Rightarrow> int list \<times> synthesis_record list \<times> int list option
   \<Rightarrow> (error + synthesis_record list) option" where
  "trace_loop latent_codes_data st =
     (if fst st = [] then Some (Inr (fst (snd st)))
      else (case trace_step latent_codes_data st of
              Inl e \<Rightarrow> Some (Inl e)
            | Inr st' \<Rightarrow> trace_loop latent_codes_data st'))"

declare trace_loop.simps [code]

definition trace_back_to_origin ::
  "synthesis_record list \<Rightarrow> int \<Rightarrow> (error + synthesis_record list) option" where
  "trace_back_to_origin latent_codes_data index' = trace_loop latent_codes_data ([index'], [], None)"

subsection \<open>Breadth-first order as the specification words it\<close>

text \<open>
  The parents of the record at position \<open>k\<close>: none for an \<open>initial\<close> record, the indices
  parsed from the name otherwise. A ledger is well formed when every record is of one
  of the three types, the name of every derived record parses, and every parent
  position is smaller than the record's own (as for every record the synthesis loop
  appends: it samples the parents from the ledger before the record is added).
\<close>

definition parent_indices :: "synthesis_record \<Rightarrow> error + int list" where
  "parent_indices r =
     (if synthesis_type r = ''initial'' then Inr []
      else if synthesis_type r = ''interpolation'' then interpolation_indices r
      else if synthesis_type r = ''arithmetic'' then arithmetic_indices r
      else Inl UnboundLocalError)"

definition well_formed_at :: "nat \<Rightarrow> synthesis_record \<Rightarrow> bool" where
  "well_formed_at k r =
     (case parent_indices r of
        Inl e \<Rightarrow> False
      | Inr ps \<Rightarrow> list_all (\<lambda>p. 0 \<le> p \<and> p < int k) ps)"

definition well_formed :: "synthesis_record list \<Rightarrow> bool" where
  "well_formed ledger = list_all (\<lambda>(k, r). well_formed_at k r) (List.enumerate 0 ledger)"

text \<open>A ledger is indexed when every record's \<open>index\<close> is its position.\<close>

definition indexed :: "synthesis_record list \<Rightarrow> bool" where
  "indexed ledger \<longleftrightarrow> (\<forall>k<length ledger. index (ledger ! k) = int k)"

text \<open>
  Breadth-first traversal, level by level: the output is the frontier, followed by the
  traversal of the concatenated parents of the frontier's records, in order; nothing
  is removed, so a record that is reached along several paths is listed once for each.
  Only parents at smaller positions are followed, which makes the traversal total; in
  a well-formed ledger these are all the parents.
\<close>

definition children :: "synthesis_record list \<Rightarrow> int \<Rightarrow> int list" where
  "children ledger k =
     (case parent_indices (ledger ! nat k) of
        Inl e \<Rightarrow> []
      | Inr ps \<Rightarrow> filter (\<lambda>p. 0 \<le> p \<and> p < k) ps)"

function bfs_levels :: "synthesis_record list \<Rightarrow> int list \<Rightarrow> int list" where
  "bfs_levels ledger frontier =
     (if frontier = [] then []
      else frontier @ bfs_levels ledger (concat (map (children ledger) frontier)))"
  by pat_completeness auto
termination
proof (relation "measure (\<lambda>(ledger, frontier). if frontier = [] then 0 else nat (Max (set frontier)) + 1)")
  show "wf (measure (\<lambda>(ledger, frontier). if frontier = [] then 0 else nat (Max (set frontier)) + 1))"
    by simp
next
  fix ledger :: "synthesis_record list" and frontier :: "int list"
  assume ne: "frontier \<noteq> []"
  let ?next = "concat (map (children ledger) frontier)"
  show "((ledger, ?next), (ledger, frontier))
      \<in> measure (\<lambda>(ledger, frontier). if frontier = [] then 0 else nat (Max (set frontier)) + 1)"
  proof (cases "?next = []")
    case True
    with ne show ?thesis by simp
  next
    case False
    then have "Max (set ?next) \<in> set ?next" by (intro Max_in) simp_all
    then obtain k where k: "k \<in> set frontier" and m: "Max (set ?next) \<in> set (children ledger k)"
      by auto
    from m have "0 \<le> Max (set ?next)" "Max (set ?next) < k"
      by (auto simp: children_def split: sum.splits)
    moreover from k have "k \<le> Max (set frontier)" by simp
    ultimately have "nat (Max (set ?next)) < nat (Max (set frontier))" by linarith
    with ne False show ?thesis by simp
  qed
qed

declare bfs_levels.simps [simp del]

section \<open>Example inputs\<close>

text \<open>A tetrahedron with a corner at the origin and edges of length 2 along the axes.\<close>

definition tetrahedron :: mesh where
  "tetrahedron = \<lparr>vertices = [(0, 0, 0), (2, 0, 0), (0, 2, 0), (0, 0, 2)],
                  faces = [(0, 2, 1), (0, 1, 3), (0, 3, 2), (1, 2, 3)],
                  path = ''tetrahedron.obj''\<rparr>"

text \<open>
  Example inputs for the sampler: a surface sampler that returns the first vertices of
  the mesh, and constant random draws.
\<close>

definition first_vertices :: "mesh \<Rightarrow> int \<Rightarrow> error + point list" where
  "first_vertices m n = (if n < 0 then Inl ValueError else Inr (take (nat n) (vertices m)))"

definition constant_rng :: rng where
  "constant_rng = \<lparr>standard_normal = (\<lambda>i. (1, -1, 0)),
                   random_bbox = (\<lambda>i. (1 / 2, 1 / 2, 1 / 2)),
                   random_volume = (\<lambda>i. (1 / 4, 1 / 2, 3 / 4))\<rparr>"

text \<open>
  Example inputs for the synthesis: a decoder with three pretrained codes that predicts
  0 for every row, a grid generator with 1000 points and one with 3 points, and mesh
  extractions that find the tetrahedron or no surface.
\<close>

definition zero_decoder :: sdf_decoder where
  "zero_decoder = \<lparr>latent_codes = [[0, 0], [2, 2], [4, 0]],
                    forward = (\<lambda>rows. Inr (map (\<lambda>r. [0]) rows))\<rparr>"

definition tetrahedron_reconstructor :: reconstructor where
  "tetrahedron_reconstructor =
     \<lparr>get_volume_coords = (\<lambda>resolution. Inr (replicate 1000 [0, 0, 0], 10)),
      extract_mesh = (\<lambda>grid_size_axis sdf n m c. Inr (Some tetrahedron))\<rparr>"

definition no_surface_reconstructor :: reconstructor where
  "no_surface_reconstructor =
     \<lparr>get_volume_coords = (\<lambda>resolution. Inr (replicate 1000 [0, 0, 0], 10)),
      extract_mesh = (\<lambda>grid_size_axis sdf n m c. Inr None)\<rparr>"



text \<open>
  Example inputs for the ledger: the seeded ledger of \<open>zero_decoder\<close> followed by two
  interpolations, a decoder whose three pretrained codes are zero vectors, and draws.
\<close>

definition example_ledger :: "synthesis_record list" where
  "example_ledger = seed_ledger zero_decoder @
     [\<lparr>name = StrName ''0__1__0-5.obj'', index = 3, synthesis_type = ''interpolation'',
       latent_code = [1, 1]\<rparr>,
      \<lparr>name = StrName ''3__0__0-25.obj'', index = 4, synthesis_type = ''interpolation'',
       latent_code = [3 / 4, 3 / 4]\<rparr>]"

definition flat_decoder :: sdf_decoder where
  "flat_decoder = \<lparr>latent_codes = [[0, 0], [0, 0], [0, 0]],
                    forward = (\<lambda>rows. Inr (map (\<lambda>r. [0]) rows))\<rparr>"

definition arithmetic_draws :: draws where
  "arithmetic_draws = \<lparr>operation_draw = 1 / 4, restrict_draw = 3 / 4,
                        sample_draw = (\<lambda>i. if i = 0 then 2 else 0), factor_draw = 1 / 2\<rparr>"

definition interpolation_draws :: draws where
  "interpolation_draws = \<lparr>operation_draw = 3 / 4, restrict_draw = 1 / 4,
                           sample_draw = (\<lambda>i. 0), factor_draw = 1 / 2\<rparr>"

text \<open>
  Example states: the state in which \<^verbatim>\<open>infinite_synthesis\<close> enters its loop for
  \<open>zero_decoder\<close> and the directory \<open>out\<close>, and the state after one arithmetic
  synthesis there.
\<close>

definition seeded_state :: state where
  "seeded_state = \<lparr>data = seed_ledger zero_decoder, files = [''out'' \<mapsto> Directory], events = []\<rparr>"

definition synthesized_record :: synthesis_record where
  "synthesized_record = \<lparr>name = StrName ''2__0__1.obj'', index = 3,
                          synthesis_type = ''arithmetic'', latent_code = [2, - 2]\<rparr>"

definition after_one_synthesis :: state where
  "after_one_synthesis =
     \<lparr>data = seed_ledger zero_decoder @ [synthesized_record],
      files = [''out'' \<mapsto> Directory,
               ''out/2__0__1.obj'' \<mapsto> ObjFile tetrahedron,
               ''out/infinite_synthesized_latent_codes.npz'' \<mapsto>
                 NpzFile (seed_ledger zero_decoder @ [synthesized_record])],
      events = replicate 1000 (DecoderCall 1)
               @ [Export ''out/2__0__1.obj'', Savez ''out/infinite_synthesized_latent_codes.npz'']\<rparr>"

definition after_null_synthesis :: state where
  "after_null_synthesis =
     \<lparr>data = seed_ledger zero_decoder @ [synthesized_record],
      files = [''out'' \<mapsto> Directory,
               ''out/infinite_synthesized_latent_codes.npz'' \<mapsto>
                 NpzFile (seed_ledger zero_decoder @ [synthesized_record])],
      events = replicate 1000 (DecoderCall 1)
               @ [Savez ''out/infinite_synthesized_latent_codes.npz'']\<rparr>"

section \<open>Properties of interpolation\<close>

lemma ebind_simps:
  "ebind (Inl e) f = Inl e"
  "ebind (Inr x) f = f x"
  by (simp_all add: ebind_def)

lemma map2_add_zero:
  "length a = length b \<Longrightarrow> map2 (+) a (map (\<lambda>x. (0::real)) b) = a"
  by (induction a b rule: list_induct2) simp_all

lemma map2_zero_add:
  "length a = length b \<Longrightarrow> map2 (+) (map (\<lambda>x. (0::real)) a) b = b"
  by (induction a b rule: list_induct2) simp_all

lemma foldl_ebind_Inl:
  "foldl (\<lambda>result i. ebind result (g i)) (Inl e) is = Inl e"
  by (induction "is") (simp_all add: ebind_simps)

lemma interpolate_loop_fold:
  assumes "length codes = length factors + 1"
    and "fs = drop fi factors"
    and "fi \<le> length factors"
  shows "interpolate_loop codes acc fi fs =
     foldl (\<lambda>result i. ebind result (\<lambda>r.
              t_add (t_scale r (1 - factors ! i)) (t_scale (codes ! (i + 1)) (factors ! i))))
       (Inr acc) [fi..<length factors]"
  using assms
proof (induction fs arbitrary: fi acc)
  case Nil
  then have "fi = length factors" by simp
  then show ?case by simp
next
  case (Cons f fs)
  from Cons.prems have lt: "fi < length factors"
    by (metis drop_all list.distinct(1) not_le_imp_less)
  with Cons.prems have f: "f = factors ! fi" and fs: "fs = drop (Suc fi) factors"
    by (simp_all add: Cons_nth_drop_Suc [symmetric])
  have upt: "[fi..<length factors] = fi # [Suc fi..<length factors]"
    using lt by (simp add: upt_conv_Cons)
  show ?case
  proof (cases "t_add (t_scale acc (1 - f)) (t_scale (codes ! (fi + 1)) f)")
    case (Inl e)
    then show ?thesis
      using lt Cons.prems(1) f
      by (simp add: upt ebind_simps foldl_ebind_Inl)
  next
    case (Inr r)
    have "interpolate_loop codes r (Suc fi) fs =
        foldl (\<lambda>result i. ebind result (\<lambda>r.
              t_add (t_scale r (1 - factors ! i)) (t_scale (codes ! (i + 1)) (factors ! i))))
          (Inr r) [Suc fi..<length factors]"
      using Cons.IH [of "Suc fi" r] Cons.prems(1) fs lt by simp
    then show ?thesis
      using Inr lt Cons.prems(1) f
      by (simp add: upt ebind_simps)
  qed
qed

lemma interpolate_single: "interpolate [a] [] = Inr a"
  by (simp add: interpolate_def)

lemma interpolate_zero:
  "length a = length b \<Longrightarrow> interpolate [a, b] [0] = Inr a"
  by (simp add: interpolate_def ebind_simps t_add_def t_binop_def t_scale_def map2_add_zero)

lemma interpolate_one:
  "length a = length b \<Longrightarrow> interpolate [a, b] [1] = Inr b"
  by (simp add: interpolate_def ebind_simps t_add_def t_binop_def t_scale_def map2_zero_add)

lemma interpolate_is_fold:
  assumes "length codes = length factors + 1"
  shows "interpolate codes factors = interpolate_fold codes factors"
proof (cases "length codes = 1")
  case True
  with assms have "factors = []" by simp
  with True show ?thesis
    by (simp add: interpolate_def interpolate_fold_def)
next
  case False
  have "interpolate codes factors = interpolate_loop codes (codes ! 0) 0 factors"
    using assms False by (simp add: interpolate_def)
  also have "\<dots> = interpolate_fold codes factors"
    unfolding interpolate_fold_def
    by (rule interpolate_loop_fold) (use assms in simp_all)
  finally show ?thesis .
qed

text \<open>
  Claim C2. Interpolation identities: \<open>interpolate([a], [])\<close> returns \<open>a\<close> unchanged;
  for two latent codes \<open>a\<close> and \<open>b\<close> of the same dimension, \<open>interpolate([a, b], [0.0])\<close>
  returns \<open>a\<close> and \<open>interpolate([a, b], [1.0])\<close> returns \<open>b\<close>; and for \<open>k + 1\<close> codes and
  \<open>k\<close> factors the result is the left fold that starts from \<open>codes[0]\<close> and replaces the
  result by \<open>result * (1 - factor_i) + codes[i+1] * factor_i\<close> for each factor in turn.
\<close>

theorem interpolate_identities:
  "interpolate [a] [] = Inr a
   \<and> (length a = length b \<longrightarrow>
        interpolate [a, b] [0] = Inr a \<and> interpolate [a, b] [1] = Inr b)
   \<and> (length codes = length factors + 1 \<longrightarrow>
        interpolate codes factors = interpolate_fold codes factors)"
  using interpolate_single interpolate_zero interpolate_one interpolate_is_fold
  by blast

theorem interpolate_identities_witness:
  "interpolate [[1, 2]] [] = Inr [1, 2]
   \<and> length [1, 2 :: real] = length [3, 4 :: real]
   \<and> interpolate [[1, 2], [3, 4]] [0] = Inr [1, 2]
   \<and> interpolate [[1, 2], [3, 4]] [1] = Inr [3, 4]
   \<and> length [[0, 0], [2, 2], [4, 0 :: real]] = length [1 / 2, 1 / 4 :: real] + 1
   \<and> interpolate [[0, 0], [2, 2], [4, 0]] [1 / 2, 1 / 4] = Inr [7 / 4, 3 / 4]
   \<and> interpolate_fold [[0, 0], [2, 2], [4, 0]] [1 / 2, 1 / 4] = Inr [7 / 4, 3 / 4]"
  using interpolate_identities [of "[1, 2]" "[3, 4]" "[[0, 0], [2, 2], [4, 0]]" "[1 / 2, 1 / 4]"]
  by (simp add: interpolate_fold_def ebind_simps t_add_def t_binop_def t_scale_def upt_rec)

section \<open>Properties of the mesh translation and normalisation\<close>

lemma Min_image_shift:
  fixes f :: "'a \<Rightarrow> real"
  assumes "finite S" "S \<noteq> {}"
  shows "Min ((\<lambda>v. f v - c) ` S) = Min (f ` S) - c"
proof -
  have "mono (\<lambda>x::real. x - c)" by (simp add: mono_def)
  then have "Min (f ` S) - c = Min ((\<lambda>x. x - c) ` f ` S)"
    using assms by (intro mono_Min_commute) simp_all
  then show ?thesis by (simp add: image_image)
qed

lemma Max_image_shift:
  fixes f :: "'a \<Rightarrow> real"
  assumes "finite S" "S \<noteq> {}"
  shows "Max ((\<lambda>v. f v - c) ` S) = Max (f ` S) - c"
proof -
  have "mono (\<lambda>x::real. x - c)" by (simp add: mono_def)
  then have "Max (f ` S) - c = Max ((\<lambda>x. x - c) ` f ` S)"
    using assms by (intro mono_Max_commute) simp_all
  then show ?thesis by (simp add: image_image)
qed

lemma Max_image_scale:
  fixes f :: "'a \<Rightarrow> real"
  assumes "finite S" "S \<noteq> {}" and "0 \<le> c"
  shows "Max ((\<lambda>v. f v * c) ` S) = Max (f ` S) * c"
proof -
  have "mono (\<lambda>x::real. x * c)" using assms(3) by (simp add: mono_def mult_right_mono)
  then have "Max (f ` S) * c = Max ((\<lambda>x. x * c) ` f ` S)"
    using assms by (intro mono_Max_commute) simp_all
  then show ?thesis by (simp add: image_image)
qed

lemma sum_list_map_shift:
  fixes f :: "'a \<Rightarrow> real"
  shows "sum_list (map (\<lambda>v. f v - c) xs) = sum_list (map f xs) - c * real (length xs)"
  by (induction xs) (simp_all add: algebra_simps)

lemma p_sub_simps:
  "px (p_sub p q) = px p - px q" "py (p_sub p q) = py p - py q" "pz (p_sub p q) = pz p - pz q"
  by (simp_all add: p_sub_def px_def py_def pz_def)

lemma p_simps:
  "px (a, b, c) = a" "py (a, b, c) = b" "pz (a, b, c) = c"
  by (simp_all add: px_def py_def pz_def)

lemma bounds_translated:
  assumes "vertices m \<noteq> []"
  shows "bounds (m\<lparr>vertices := map (\<lambda>v. p_sub v c) (vertices m)\<rparr>) =
    Some ((Min (px ` set (vertices m)) - px c, Min (py ` set (vertices m)) - py c,
           Min (pz ` set (vertices m)) - pz c),
          (Max (px ` set (vertices m)) - px c, Max (py ` set (vertices m)) - py c,
           Max (pz ` set (vertices m)) - pz c))"
  using assms
  by (simp add: bounds_def image_image p_sub_simps Min_image_shift Max_image_shift)

lemma mean_translated:
  assumes "vertices m \<noteq> []"
  shows "mean_vertices (m\<lparr>vertices := map (\<lambda>v. p_sub v c) (vertices m)\<rparr>) =
    (px (mean_vertices m) - px c, py (mean_vertices m) - py c, pz (mean_vertices m) - pz c)"
  using assms
  by (simp add: mean_vertices_def comp_def p_sub_simps sum_list_map_shift p_simps
      diff_divide_distrib)

lemma translate_min_bound:
  assumes "vertices m \<noteq> []"
  shows "\<exists>m' hi. translate MIN_BOUND m = Inr m' \<and> bounds m' = Some ((0, 0, 0), hi)"
proof -
  obtain lo hi where b: "bounds m = Some (lo, hi)"
    and lo: "lo = (Min (px ` set (vertices m)), Min (py ` set (vertices m)), Min (pz ` set (vertices m)))"
    using assms by (simp add: bounds_def)
  have "translate MIN_BOUND m = Inr (m\<lparr>vertices := map (\<lambda>v. p_sub v lo) (vertices m)\<rparr>)"
    by (simp add: translate_def translate_vector_def ebind_def b)
  moreover have "\<exists>hi'. bounds (m\<lparr>vertices := map (\<lambda>v. p_sub v lo) (vertices m)\<rparr>) = Some ((0, 0, 0), hi')"
    by (simp add: bounds_translated [OF assms] lo p_simps)
  ultimately show ?thesis by auto
qed

lemma translate_center:
  assumes "vertices m \<noteq> []"
  shows "\<exists>m'. translate CENTER m = Inr m' \<and> mean_vertices m' = (0, 0, 0)"
proof -
  have "translate CENTER m =
      Inr (m\<lparr>vertices := map (\<lambda>v. p_sub v (mean_vertices m)) (vertices m)\<rparr>)"
    by (simp add: translate_def translate_vector_def ebind_def MIN_BOUND_def CENTER_def)
  moreover have "mean_vertices (m\<lparr>vertices := map (\<lambda>v. p_sub v (mean_vertices m)) (vertices m)\<rparr>)
      = (0, 0, 0)"
    by (simp add: mean_translated [OF assms])
  ultimately show ?thesis by auto
qed

lemma translate_center_without_z:
  assumes "vertices m \<noteq> []"
  shows "\<exists>m' lo hi. translate CENTER_WITHOUT_Z m = Inr m' \<and> bounds m' = Some (lo, hi)
           \<and> (px lo + px hi) / 2 = 0 \<and> (py lo + py hi) / 2 = 0 \<and> pz lo = 0"
proof -
  obtain lo hi where b: "bounds m = Some (lo, hi)"
    and lo: "lo = (Min (px ` set (vertices m)), Min (py ` set (vertices m)), Min (pz ` set (vertices m)))"
    and hi: "hi = (Max (px ` set (vertices m)), Max (py ` set (vertices m)), Max (pz ` set (vertices m)))"
    using assms by (simp add: bounds_def)
  define vector where "vector = (px (p_scale (p_add lo hi) (1 / 2)),
                                py (p_scale (p_add lo hi) (1 / 2)), pz lo)"
  have "translate CENTER_WITHOUT_Z m = Inr (m\<lparr>vertices := map (\<lambda>v. p_sub v vector) (vertices m)\<rparr>)"
    by (simp add: translate_def translate_vector_def ebind_def b vector_def
        MIN_BOUND_def CENTER_def CENTER_WITHOUT_Z_def)
  moreover have "\<exists>lo' hi'. bounds (m\<lparr>vertices := map (\<lambda>v. p_sub v vector) (vertices m)\<rparr>) = Some (lo', hi')
      \<and> (px lo' + px hi') / 2 = 0 \<and> (py lo' + py hi') / 2 = 0 \<and> pz lo' = 0"
    by (simp add: bounds_translated [OF assms] lo hi vector_def p_simps p_scale_def p_add_def)
  ultimately show ?thesis by auto
qed


text \<open>
  Claim C3 as it is worded asks that mode \<open>CenterWithoutZ\<close> puts the mean of the vertex
  \<open>x\<close> and \<open>y\<close> coordinates at the origin. The code subtracts the centre of the
  bounding box instead: on the tetrahedron the translated vertices have the mean
  \<open>(-1/2, -1/2, 1/2)\<close>, so the horizontal mean is not at the origin.
\<close>

theorem center_without_z_mean_counterexample:
  "translate CENTER_WITHOUT_Z tetrahedron =
     Inr (tetrahedron\<lparr>vertices := [(-1, -1, 0), (1, -1, 0), (-1, 1, 0), (-1, -1, 2)]\<rparr>)
   \<and> mean_vertices (tetrahedron\<lparr>vertices := [(-1, -1, 0), (1, -1, 0), (-1, 1, 0), (-1, -1, 2)]\<rparr>)
       = (-1 / 2, -1 / 2, 1 / 2)
   \<and> px (mean_vertices (tetrahedron\<lparr>vertices := [(-1, -1, 0), (1, -1, 0), (-1, 1, 0), (-1, -1, 2)]\<rparr>))
       \<noteq> 0"
  by (simp add: translate_def translate_vector_def ebind_def bounds_def tetrahedron_def
      MIN_BOUND_def CENTER_def CENTER_WITHOUT_Z_def p_simps p_scale_def p_add_def p_sub_def
      mean_vertices_def)

text \<open>
  Claim C3, amended. For every mesh with at least one vertex, after the translation
  step of \<^verbatim>\<open>load_mesh\<close>: in mode \<open>MinBound\<close> the minimum corner of the bounding box
  is the origin; in mode \<open>Center\<close> the mean of the vertices is the origin; in mode
  \<open>CenterWithoutZ\<close> the horizontal centre of the bounding box (the midpoint of the
  minimum and maximum \<open>x\<close> and \<open>y\<close>) is at the origin and the minimum \<open>z\<close> is 0.
\<close>

theorem translate_modes:
  assumes "vertices m \<noteq> []"
  shows "(\<exists>m' hi. translate MIN_BOUND m = Inr m' \<and> bounds m' = Some ((0, 0, 0), hi))
     \<and> (\<exists>m'. translate CENTER m = Inr m' \<and> mean_vertices m' = (0, 0, 0))
     \<and> (\<exists>m' lo hi. translate CENTER_WITHOUT_Z m = Inr m' \<and> bounds m' = Some (lo, hi)
           \<and> (px lo + px hi) / 2 = 0 \<and> (py lo + py hi) / 2 = 0 \<and> pz lo = 0)"
  using translate_min_bound [OF assms] translate_center [OF assms]
    translate_center_without_z [OF assms] by blast

theorem translate_modes_witness:
  "vertices tetrahedron \<noteq> []
   \<and> translate MIN_BOUND tetrahedron = Inr tetrahedron
   \<and> bounds tetrahedron = Some ((0, 0, 0), (2, 2, 2))
   \<and> translate CENTER tetrahedron =
       Inr (tetrahedron\<lparr>vertices := [(-1 / 2, -1 / 2, -1 / 2), (3 / 2, -1 / 2, -1 / 2), (-1 / 2, 3 / 2, -1 / 2), (-1 / 2, -1 / 2, 3 / 2)]\<rparr>)
   \<and> mean_vertices (tetrahedron\<lparr>vertices := [(-1 / 2, -1 / 2, -1 / 2), (3 / 2, -1 / 2, -1 / 2), (-1 / 2, 3 / 2, -1 / 2), (-1 / 2, -1 / 2, 3 / 2)]\<rparr>)
       = (0, 0, 0)
   \<and> translate CENTER_WITHOUT_Z tetrahedron =
       Inr (tetrahedron\<lparr>vertices := [(-1, -1, 0), (1, -1, 0), (-1, 1, 0), (-1, -1, 2)]\<rparr>)
   \<and> bounds (tetrahedron\<lparr>vertices := [(-1, -1, 0), (1, -1, 0), (-1, 1, 0), (-1, -1, 2)]\<rparr>)
       = Some ((-1, -1, 0), (1, 1, 2))"
  using translate_modes [of tetrahedron]
  by (simp add: translate_def translate_vector_def ebind_def bounds_def tetrahedron_def
      MIN_BOUND_def CENTER_def CENTER_WITHOUT_Z_def p_simps p_scale_def p_add_def p_sub_def
      mean_vertices_def)

text \<open>
  Claim C4 as it is worded: a second normalisation with the same \<open>max_length\<close> changes
  nothing. With \<open>max_length = 2\<close> the tetrahedron's vertex \<open>(2, 0, 0)\<close> moves to
  \<open>(1, 0, 0)\<close>, and the second call moves it on to \<open>(1/2, 0, 0)\<close>.
\<close>

theorem normalize_twice_counterexample:
  "get_normalized_mesh tetrahedron (Some 2) =
     Inr (tetrahedron\<lparr>vertices := [(0, 0, 0), (1, 0, 0), (0, 1, 0), (0, 0, 1)]\<rparr>)
   \<and> get_normalized_mesh (tetrahedron\<lparr>vertices := [(0, 0, 0), (1, 0, 0), (0, 1, 0), (0, 0, 1)]\<rparr>) (Some 2) =
     Inr (tetrahedron\<lparr>vertices := [(0, 0, 0), (1 / 2, 0, 0), (0, 1 / 2, 0), (0, 0, 1 / 2)]\<rparr>)
   \<and> get_normalized_mesh (tetrahedron\<lparr>vertices := [(0, 0, 0), (1, 0, 0), (0, 1, 0), (0, 0, 1)]\<rparr>) (Some 2) \<noteq>
     Inr (tetrahedron\<lparr>vertices := [(0, 0, 0), (1, 0, 0), (0, 1, 0), (0, 0, 1)]\<rparr>)"
  by (simp add: get_normalized_mesh_def tetrahedron_def p_scale_def p_simps)

lemma p_scale_fixed: "c \<noteq> 0 \<Longrightarrow> p_scale v (1 / c) = v \<longleftrightarrow> c = 1 \<or> v = (0, 0, 0)"
  by (cases v) (auto simp: p_scale_def p_simps field_simps)

lemma map_fixed: "map f xs = xs \<longleftrightarrow> (\<forall>x\<in>set xs. f x = x)"
  by (induction xs) auto

lemma p_norm_scale: "0 \<le> c \<Longrightarrow> p_norm (p_scale v c) = p_norm v * c"
proof -
  assume c: "0 \<le> c"
  have "(px v * c)\<^sup>2 + (py v * c)\<^sup>2 + (pz v * c)\<^sup>2 = ((px v)\<^sup>2 + (py v)\<^sup>2 + (pz v)\<^sup>2) * c\<^sup>2"
    by (simp add: power_mult_distrib algebra_simps)
  then show ?thesis
    using c by (simp add: p_norm_def p_scale_def p_simps real_sqrt_mult)
qed

lemma max_norm_nonneg: "vertices m \<noteq> [] \<Longrightarrow> 0 \<le> max_norm m"
proof -
  assume ne: "vertices m \<noteq> []"
  then obtain v where "v \<in> set (vertices m)" by (cases "vertices m") auto
  then have "p_norm v \<le> max_norm m" by (simp add: max_norm_def)
  moreover have "0 \<le> p_norm v" by (simp add: p_norm_def)
  ultimately show ?thesis by linarith
qed

lemma max_norm_scaled:
  assumes "vertices m \<noteq> []" "0 \<le> c"
  shows "max_norm (m\<lparr>vertices := map (\<lambda>v. p_scale v c) (vertices m)\<rparr>) = max_norm m * c"
  using assms by (simp add: max_norm_def image_image p_norm_scale Max_image_scale)

lemma normalize_self_idem:
  assumes "get_normalized_mesh m None = Inr m1"
  shows "get_normalized_mesh m1 None = Inr m1"
proof -
  from assms have ne: "vertices m \<noteq> []" and nz: "max_norm m \<noteq> 0"
    and m1: "m1 = m\<lparr>vertices := map (\<lambda>v. p_scale v (1 / max_norm m)) (vertices m)\<rparr>"
    by (auto simp: get_normalized_mesh_def split: if_splits)
  have pos: "0 < max_norm m" using max_norm_nonneg [OF ne] nz by linarith
  have one: "max_norm m1 = 1"
    unfolding m1 using pos by (simp add: max_norm_scaled [OF ne])
  have "vertices m1 \<noteq> []" using ne by (simp add: m1)
  moreover have "map (\<lambda>v. p_scale v 1) (vertices m1) = vertices m1"
    by (simp add: map_fixed p_scale_def px_def py_def pz_def)
  ultimately show ?thesis
    by (simp add: get_normalized_mesh_def one)
qed

text \<open>
  Claim C4, amended. \<^verbatim>\<open>get_normalized_mesh\<close> with a supplied \<open>max_length = L\<close>
  (\<open>L\<close> not zero) multiplies every vertex by \<open>1 / L\<close> each time it is applied, so
  applying it to a mesh already normalised with \<open>L\<close> leaves the vertex positions
  unchanged exactly when \<open>L = 1\<close> or every vertex is at the origin. With \<open>max_length\<close>
  omitted (the length is the mesh's own largest vertex norm), normalising a normalised
  mesh again returns it unchanged.
\<close>

theorem normalized_again:
  "(L \<noteq> 0 \<longrightarrow>
      (\<exists>m1 m2. get_normalized_mesh m (Some L) = Inr m1 \<and> get_normalized_mesh m1 (Some L) = Inr m2
         \<and> vertices m2 = map (\<lambda>v. p_scale v (1 / L)) (vertices m1)
         \<and> (vertices m2 = vertices m1 \<longleftrightarrow> L = 1 \<or> (\<forall>v\<in>set (vertices m1). v = (0, 0, 0)))))
   \<and> (get_normalized_mesh m None = Inr m' \<longrightarrow> get_normalized_mesh m' None = Inr m')"
proof (intro conjI impI)
  assume L: "L \<noteq> 0"
  define m1 where "m1 = m\<lparr>vertices := map (\<lambda>v. p_scale v (1 / L)) (vertices m)\<rparr>"
  define m2 where "m2 = m1\<lparr>vertices := map (\<lambda>v. p_scale v (1 / L)) (vertices m1)\<rparr>"
  have 1: "get_normalized_mesh m (Some L) = Inr m1"
    using L by (simp add: get_normalized_mesh_def m1_def)
  have 2: "get_normalized_mesh m1 (Some L) = Inr m2"
    using L by (simp add: get_normalized_mesh_def m2_def)
  have 3: "vertices m2 = map (\<lambda>v. p_scale v (1 / L)) (vertices m1)"
    by (simp add: m2_def)
  have 4: "vertices m2 = vertices m1 \<longleftrightarrow> L = 1 \<or> (\<forall>v\<in>set (vertices m1). v = (0, 0, 0))"
    unfolding 3 map_fixed using p_scale_fixed [OF L] by auto
  show "\<exists>m1 m2. get_normalized_mesh m (Some L) = Inr m1 \<and> get_normalized_mesh m1 (Some L) = Inr m2
         \<and> vertices m2 = map (\<lambda>v. p_scale v (1 / L)) (vertices m1)
         \<and> (vertices m2 = vertices m1 \<longleftrightarrow> L = 1 \<or> (\<forall>v\<in>set (vertices m1). v = (0, 0, 0)))"
    using 1 2 3 4 by blast
next
  assume "get_normalized_mesh m None = Inr m'"
  then show "get_normalized_mesh m' None = Inr m'" by (rule normalize_self_idem)
qed


theorem normalized_again_witness:
  "(2::real) \<noteq> 0
   \<and> get_normalized_mesh tetrahedron (Some 2) =
       Inr (tetrahedron\<lparr>vertices := [(0, 0, 0), (1, 0, 0), (0, 1, 0), (0, 0, 1)]\<rparr>)
   \<and> get_normalized_mesh (tetrahedron\<lparr>vertices := [(0, 0, 0), (1, 0, 0), (0, 1, 0), (0, 0, 1)]\<rparr>) (Some 2) =
       Inr (tetrahedron\<lparr>vertices := [(0, 0, 0), (1 / 2, 0, 0), (0, 1 / 2, 0), (0, 0, 1 / 2)]\<rparr>)
   \<and> get_normalized_mesh tetrahedron None =
       Inr (tetrahedron\<lparr>vertices := [(0, 0, 0), (1, 0, 0), (0, 1, 0), (0, 0, 1)]\<rparr>)
   \<and> get_normalized_mesh (tetrahedron\<lparr>vertices := [(0, 0, 0), (1, 0, 0), (0, 1, 0), (0, 0, 1)]\<rparr>) None =
       Inr (tetrahedron\<lparr>vertices := [(0, 0, 0), (1, 0, 0), (0, 1, 0), (0, 0, 1)]\<rparr>)"
  using normalized_again [of 2 tetrahedron
      "tetrahedron\<lparr>vertices := [(0, 0, 0), (1, 0, 0), (0, 1, 0), (0, 0, 1)]\<rparr>"]
  by (simp add: get_normalized_mesh_def tetrahedron_def p_scale_def p_simps max_norm_def p_norm_def)

section \<open>Properties of the point sampler\<close>

text \<open>
  Claim C6. For every mesh with at least one vertex and every triple of non-negative
  counts, given that the library's surface sampler returns as many points as it is
  asked for and the noise scale is not negative, \<^verbatim>\<open>sample_pts\<close> returns exactly
  \<open>n_surface + n_bbox + n_volume\<close> points, laid out as the surface block (the sampled
  points plus their noise), then the bounding-box block, then the volume block, each of
  its own size (zero sizes included). The volume block is the draws of
  \<^verbatim>\<open>np.random.rand\<close> as they come, whatever the mesh, so it lies in the unit cube
  whenever those draws do.
\<close>

theorem sample_pts_layout:
  assumes "0 \<le> n_surface" and "0 \<le> n_bbox" and "0 \<le> n_volume"
    and "0 \<le> sigma"
    and "bounds m = Some (lo, hi)"
    and "sample_surface m n_surface = Inr surface" and "length surface = nat n_surface"
  shows "\<exists>s b v. sample_pts sample_surface g m n_surface n_bbox n_volume sigma noise = Inr (s @ b @ v)
     \<and> length (s @ b @ v) = nat (n_surface + n_bbox + n_volume)
     \<and> length s = nat n_surface \<and> length b = nat n_bbox \<and> length v = nat n_volume
     \<and> s = map2 p_add surface (map (\<lambda>i. p_scale (standard_normal g i) (if noise then sigma else 0))
                                 [0..<nat n_surface])
     \<and> b = map (\<lambda>i. p_add lo (p_mul (p_sub hi lo) (random_bbox g i))) [0..<nat n_bbox]
     \<and> v = map (random_volume g) [0..<nat n_volume]
     \<and> ((\<forall>i. in_unit_cube (random_volume g i)) \<longrightarrow> (\<forall>p\<in>set v. in_unit_cube p))"
  using assms
  by (auto simp: sample_pts_def ebind_def np_random_normal_def np_random_uniform_def
      np_random_rand_def nat_add_distrib)

theorem sample_pts_layout_witness:
  "(0::int) \<le> 2 \<and> (0::int) \<le> 0 \<and> (0::int) \<le> 1 \<and> (0::real) \<le> 1 / 100
   \<and> bounds tetrahedron = Some ((0, 0, 0), (2, 2, 2))
   \<and> first_vertices tetrahedron 2 = Inr [(0, 0, 0), (2, 0, 0)]
   \<and> length [(0, 0, 0), (2, 0, 0) :: point] = nat 2
   \<and> (\<forall>i. in_unit_cube (random_volume constant_rng i))
   \<and> sample_pts first_vertices constant_rng tetrahedron 2 0 1 (1 / 100) True =
       Inr ([(1 / 100, - 1 / 100, 0), (201 / 100, - 1 / 100, 0)] @ [] @ [(1 / 4, 1 / 2, 3 / 4)])
   \<and> in_unit_cube (1 / 4, 1 / 2, 3 / 4)"
  using sample_pts_layout [of 2 0 1 "1 / 100" tetrahedron "(0, 0, 0)" "(2, 2, 2)" first_vertices
      "[(0, 0, 0), (2, 0, 0)]" constant_rng True]
  by (simp add: sample_pts_def ebind_def np_random_normal_def np_random_uniform_def
      np_random_rand_def bounds_def tetrahedron_def first_vertices_def constant_rng_def
      in_unit_cube_def p_simps p_add_def p_scale_def upt_rec)

section \<open>Properties of \<^verbatim>\<open>synthesize\<close>\<close>




lemma chunks_one_replicate: "chunks (Suc 0) (replicate (Suc k) x) = replicate (Suc k) [x]"
proof (induction k)
  case 0
  show ?case by (subst chunks.simps) simp
next
  case (Suc k)
  then show ?case by (subst chunks.simps) simp
qed

lemma decode_batches_events:
  "decode_batches dec lc bs sdf ev = Inr (sdf', ev') \<Longrightarrow>
     ev' = ev @ map (\<lambda>b. DecoderCall (length b)) bs"
proof (induction bs arbitrary: sdf ev)
  case Nil
  then show ?case by simp
next
  case (Cons b bs)
  show ?case
  proof (cases "forward dec (map (\<lambda>xyz. lc @ xyz) b)")
    case (Inl e)
    with Cons.prems show ?thesis by (simp add: ebind_simps)
  next
    case (Inr pred)
    with Cons.prems have
      "decode_batches dec lc bs (if sdf = [] then pred else sdf @ pred)
         (ev @ [DecoderCall (length b)]) = Inr (sdf', ev')"
      by (simp add: ebind_simps)
    from Cons.IH [OF this] show ?thesis by simp
  qed
qed

lemma decode_batches_zero_decoder:
  "decode_batches zero_decoder lc bs sdf ev =
     Inr (sdf @ map (\<lambda>r. [0]) (concat bs), ev @ map (\<lambda>b. DecoderCall (length b)) bs)"
  by (induction bs arbitrary: sdf ev) (simp_all add: ebind_simps zero_decoder_def)


lemma torch_split_small:
  "t \<noteq> [] \<Longrightarrow> length t < 1000 \<Longrightarrow> torch_split t (int (length t) div 1000) = Inl RuntimeError"
  by (simp add: torch_split_def)




lemma concat_replicate_single: "concat (replicate k [x]) = replicate k x"
  by (induction k) simp_all

lemma torch_split_thousand:
  "torch_split (replicate 1000 x) (int (length (replicate 1000 x)) div 1000) =
     Inr (replicate 1000 [x])"
proof -
  have "chunks (Suc 0) (replicate (Suc 999) x) = replicate (Suc 999) [x]"
    by (rule chunks_one_replicate)
  then show ?thesis by (simp add: torch_split_def)
qed

lemma synthesize_thousand_zero_decoder:
  assumes "get_volume_coords rc resolution = Inr (replicate 1000 p, g)"
  shows "synthesize rc zero_decoder lc save_name resolution n m c s =
     ebind (extract_mesh rc g (replicate 1000 [0]) n m c) (\<lambda>mo.
       Inr (mo, case (mo, save_name) of
                  (Some msh, Some nm) \<Rightarrow>
                    s\<lparr>files := (files s)(nm \<mapsto> ObjFile msh),
                      events := (events s @ replicate 1000 (DecoderCall 1)) @ [Export nm]\<rparr>
                | _ \<Rightarrow> s\<lparr>events := events s @ replicate 1000 (DecoderCall 1)\<rparr>))"
proof -
  have split: "torch_split (replicate 1000 p) (int (length (replicate 1000 p)) div 1000) =
      Inr (replicate 1000 [p])"
    by (rule torch_split_thousand)
  have dec: "decode_batches zero_decoder lc (replicate 1000 [p]) [] (events s) =
      Inr (replicate 1000 [0], events s @ replicate 1000 (DecoderCall 1))"
    by (simp add: decode_batches_zero_decoder concat_replicate_single)
  show ?thesis
    unfolding synthesize_def assms ebind_simps split_conv split dec ..
qed



section \<open>Properties of the random arithmetic synthesis\<close>

lemma nth_remove_position:
  assumes "j < length pool" and "p < length pool - 1"
  shows "(take j pool @ drop (Suc j) pool) ! p = pool ! (if p < j then p else Suc p)"
  using assms by (auto simp: nth_append min_def)

lemma sample_from_positions:
  "length rs \<le> length pool \<Longrightarrow>
     \<exists>ps. length ps = length rs \<and> distinct ps \<and> (\<forall>p\<in>set ps. p < length pool)
        \<and> sample_from pool rs = map ((!) pool) ps"
proof (induction rs arbitrary: pool)
  case Nil
  then show ?case by simp
next
  case (Cons r rs)
  define j where "j = r mod length pool"
  define pool' where "pool' = take j pool @ drop (Suc j) pool"
  from Cons.prems have pos: "0 < length pool" by auto
  then have j: "j < length pool" by (simp add: j_def)
  have len': "length pool' = length pool - 1"
    using j by (simp add: pool'_def min_def)
  with Cons.prems have "length rs \<le> length pool'" by simp
  from Cons.IH [OF this] obtain ps where ps: "length ps = length rs" "distinct ps"
      "\<forall>p\<in>set ps. p < length pool'" "sample_from pool' rs = map ((!) pool') ps"
    by blast
  define shift where "shift = (\<lambda>p. if p < j then p else Suc p)"
  have shift_eq: "shift p = shift q \<Longrightarrow> p = q" for p q
    by (cases "p < j"; cases "q < j") (simp_all add: shift_def)
  have shift_neq: "shift p \<noteq> j" for p
    by (cases "p < j") (simp_all add: shift_def)
  have "pool' ! p = pool ! shift p" if "p \<in> set ps" for p
  proof -
    from that ps(3) have "p < length pool - 1" by (simp add: len')
    from nth_remove_position [OF j this] show ?thesis by (simp add: pool'_def shift_def)
  qed
  then have "map ((!) pool') ps = map ((!) pool) (map shift ps)"
    by simp
  moreover have "distinct (j # map shift ps)"
  proof -
    have "inj_on shift (set ps)" by (rule inj_onI) (rule shift_eq)
    with ps(2) have "distinct (map shift ps)" by (simp add: distinct_map)
    moreover have "j \<notin> set (map shift ps)" using shift_neq by fastforce
    ultimately show ?thesis by simp
  qed
  moreover have "\<forall>p\<in>set (j # map shift ps). p < length pool"
  proof -
    have "shift p < length pool" if "p \<in> set ps" for p
    proof -
      from that ps(3) have "p < length pool - 1" by (simp add: len')
      then show ?thesis by (cases "p < j") (simp_all add: shift_def)
    qed
    with j show ?thesis by simp
  qed
  moreover have "length (j # map shift ps) = length (r # rs)"
    using ps(1) by simp
  moreover have "sample_from pool (r # rs) = pool ! j # sample_from pool' rs"
    by (simp add: j_def pool'_def)
  ultimately show ?case
    using ps(4) by (intro exI [of _ "j # map shift ps"]) simp
qed

lemma random_sample_three:
  assumes "random_sample rnd pool 3 = Inr picked"
  shows "3 \<le> length pool \<and> (\<exists>p0 p1 p2. distinct [p0, p1, p2] \<and> p0 < length pool \<and> p1 < length pool
           \<and> p2 < length pool \<and> picked = [pool ! p0, pool ! p1, pool ! p2])"
proof -
  from assms have len: "3 \<le> length pool"
    and picked: "picked = sample_from pool (map rnd [0..<3])"
    by (auto simp: random_sample_def split: if_splits)
  have "length (map rnd [0..<3]) \<le> length pool" using len by simp
  from sample_from_positions [OF this] obtain ps where ps: "length ps = 3" "distinct ps"
      "\<forall>p\<in>set ps. p < length pool" "sample_from pool (map rnd [0..<3]) = map ((!) pool) ps"
    by auto
  from ps(1) obtain p0 p1 p2 where "ps = [p0, p1, p2]"
    by (auto simp: length_Suc_conv eval_nat_numeral)
  with ps picked len show ?thesis by auto
qed


lemma arithmetic_loop_three:
  "arithmetic_loop 0 (length (tl [e0, e1, e2])) (tl [e0, e1, e2]) sel c0 =
     ebind (t_iadd c0 (latent_code e1)) (\<lambda>c.
     ebind (t_isub c (latent_code e2)) (\<lambda>c'.
     Inr (sel @ ''__'' @ str_int (index e1) @ ''__'' @ str_int (index e2), c')))"
  by (simp add: ebind_def split: sum.splits)

lemma t_inplace_same_length:
  "length b = length a \<Longrightarrow> t_inplace f a b = Inr (map2 f a b)"
  by (simp add: t_inplace_def)

lemma arithmetic_codes_nth:
  assumes "ebind (t_iadd a b) (\<lambda>c. t_isub c d) = Inr code"
    and "length b = length a" and "length d = length a"
  shows "length code = length a \<and> (\<forall>i<length code. code ! i = a ! i + b ! i - d ! i)"
  using assms
  by (auto simp: ebind_simps t_iadd_def t_isub_def t_inplace_same_length)

lemma arithmetic_codes_zero:
  assumes "ebind (t_iadd (replicate k 0) (replicate k 0)) (\<lambda>c. t_isub c (replicate k 0)) = Inr code"
  shows "code = replicate k 0"
proof -
  have "length code = k \<and> (\<forall>i<length code. code ! i = 0)"
    using arithmetic_codes_nth [OF assms] by simp
  then show ?thesis by (simp add: list_eq_iff_nth_eq)
qed

lemma arithmetic_synthesis_char:
  assumes "random_arithmetic_operations_synthesis dec dr ledger = Inr (sel, code)"
  shows "\<exists>pool p0 p1 p2.
        pool = filter (\<lambda>rd. synthesis_type rd \<noteq> ''interpolation'')
                 (if restrict_draw dr < 1 / 2 then take (length (latent_codes dec)) ledger
                  else ledger)
      \<and> distinct [p0, p1, p2] \<and> p0 < length pool \<and> p1 < length pool \<and> p2 < length pool
      \<and> synthesis_type (pool ! p0) \<noteq> ''interpolation''
      \<and> synthesis_type (pool ! p1) \<noteq> ''interpolation''
      \<and> synthesis_type (pool ! p2) \<noteq> ''interpolation''
      \<and> ebind (t_iadd (latent_code (pool ! p0)) (latent_code (pool ! p1)))
           (\<lambda>c. t_isub c (latent_code (pool ! p2))) = Inr code
      \<and> sel = str_int (index (pool ! p0)) @ ''__'' @ str_int (index (pool ! p1)) @ ''__''
               @ str_int (index (pool ! p2))"
proof -
  define pool where "pool = filter (\<lambda>rd. synthesis_type rd \<noteq> ''interpolation'')
                 (if restrict_draw dr < 1 / 2 then take (length (latent_codes dec)) ledger
                  else ledger)"
  from assms obtain picked where picked: "random_sample (sample_draw dr) pool 3 = Inr picked"
    and loop: "arithmetic_loop 0 (length (tl picked)) (tl picked)
           (str_int (index (picked ! 0))) (latent_code (picked ! 0)) = Inr (sel, code)"
    unfolding random_arithmetic_operations_synthesis_def Let_def pool_def [symmetric]
    by (cases "random_sample (sample_draw dr) pool 3") (simp_all add: ebind_simps)
  from random_sample_three [OF picked] obtain p0 p1 p2 where
    p: "distinct [p0, p1, p2]" "p0 < length pool" "p1 < length pool" "p2 < length pool"
    and eq: "picked = [pool ! p0, pool ! p1, pool ! p2]"
    by blast
  have ty: "synthesis_type (pool ! q) \<noteq> ''interpolation''" if "q < length pool" for q
  proof -
    from that have "pool ! q \<in> set pool" by simp
    then show ?thesis unfolding pool_def by simp
  qed
  from loop have run: "ebind (t_iadd (latent_code (pool ! p0)) (latent_code (pool ! p1))) (\<lambda>c.
     ebind (t_isub c (latent_code (pool ! p2))) (\<lambda>c'.
     Inr (str_int (index (pool ! p0)) @ ''__'' @ str_int (index (pool ! p1)) @ ''__''
          @ str_int (index (pool ! p2)), c'))) = Inr (sel, code)"
    unfolding eq arithmetic_loop_three by simp
  then have code: "ebind (t_iadd (latent_code (pool ! p0)) (latent_code (pool ! p1)))
           (\<lambda>c. t_isub c (latent_code (pool ! p2))) = Inr code"
    and sel: "sel = str_int (index (pool ! p0)) @ ''__'' @ str_int (index (pool ! p1)) @ ''__''
               @ str_int (index (pool ! p2))"
    by (auto simp: ebind_def split: sum.splits)
  show ?thesis
    using p ty code sel pool_def by blast
qed

lemma arithmetic_synthesis_total:
  assumes "3 \<le> length (filter (\<lambda>rd. synthesis_type rd \<noteq> ''interpolation'')
                 (if restrict_draw dr < 1 / 2 then take (length (latent_codes dec)) ledger
                  else ledger))"
    and "\<forall>rd\<in>set ledger. length (latent_code rd) = k"
  shows "\<exists>sel code. random_arithmetic_operations_synthesis dec dr ledger = Inr (sel, code)"
proof -
  define pool where "pool = filter (\<lambda>rd. synthesis_type rd \<noteq> ''interpolation'')
                 (if restrict_draw dr < 1 / 2 then take (length (latent_codes dec)) ledger
                  else ledger)"
  have sub: "set pool \<subseteq> set ledger"
    unfolding pool_def by (auto dest: in_set_takeD)
  from assms(1) have "random_sample (sample_draw dr) pool 3 =
      Inr (sample_from pool (map (sample_draw dr) [0..<3]))"
    by (simp add: random_sample_def pool_def)
  moreover from random_sample_three [OF this] obtain p0 p1 p2 where
    p: "p0 < length pool" "p1 < length pool" "p2 < length pool"
    and eq: "sample_from pool (map (sample_draw dr) [0..<3]) = [pool ! p0, pool ! p1, pool ! p2]"
    by blast
  have len: "length (latent_code (pool ! q)) = k" if "q < length pool" for q
    using that sub assms(2) by (meson nth_mem subsetD)
  have "arithmetic_loop 0 (length (tl [pool ! p0, pool ! p1, pool ! p2]))
          (tl [pool ! p0, pool ! p1, pool ! p2])
          (str_int (index (pool ! p0))) (latent_code (pool ! p0)) =
        Inr (str_int (index (pool ! p0)) @ ''__'' @ str_int (index (pool ! p1)) @ ''__''
             @ str_int (index (pool ! p2)),
             map2 (-) (map2 (+) (latent_code (pool ! p0)) (latent_code (pool ! p1)))
               (latent_code (pool ! p2)))"
    unfolding arithmetic_loop_three
    by (simp add: ebind_simps t_iadd_def t_isub_def t_inplace_same_length len p)
  ultimately show ?thesis
    unfolding random_arithmetic_operations_synthesis_def Let_def pool_def [symmetric]
    by (simp add: ebind_simps eq)
qed


text \<open>
  Claim C5. Arithmetic synthesis: the candidates whose synthesis type is
  \<open>interpolation\<close> are left out of the pool; three entries at three different positions
  of the pool are sampled; the resulting latent code is the first entry's code plus the
  second entry's code minus the third entry's code; and the returned id is the three
  entries' indices joined by \<open>__\<close> in the sampled order. On three zero vectors of the same
  length the result is the zero vector. The call returns whenever the pool has three
  entries and all latent codes have the same length.
\<close>

theorem arithmetic_synthesis:
  "(random_arithmetic_operations_synthesis dec dr ledger = Inr (sel, code) \<longrightarrow>
     (\<exists>pool p0 p1 p2.
        pool = filter (\<lambda>rd. synthesis_type rd \<noteq> ''interpolation'')
                 (if restrict_draw dr < 1 / 2 then take (length (latent_codes dec)) ledger
                  else ledger)
      \<and> distinct [p0, p1, p2] \<and> p0 < length pool \<and> p1 < length pool \<and> p2 < length pool
      \<and> synthesis_type (pool ! p0) \<noteq> ''interpolation''
      \<and> synthesis_type (pool ! p1) \<noteq> ''interpolation''
      \<and> synthesis_type (pool ! p2) \<noteq> ''interpolation''
      \<and> ebind (t_iadd (latent_code (pool ! p0)) (latent_code (pool ! p1)))
           (\<lambda>c. t_isub c (latent_code (pool ! p2))) = Inr code
      \<and> (length (latent_code (pool ! p1)) = length (latent_code (pool ! p0))
           \<and> length (latent_code (pool ! p2)) = length (latent_code (pool ! p0)) \<longrightarrow>
           length code = length (latent_code (pool ! p0))
           \<and> (\<forall>i<length code. code ! i = latent_code (pool ! p0) ! i + latent_code (pool ! p1) ! i
                                          - latent_code (pool ! p2) ! i))
      \<and> (latent_code (pool ! p0) = replicate k 0 \<and> latent_code (pool ! p1) = replicate k 0
           \<and> latent_code (pool ! p2) = replicate k 0 \<longrightarrow> code = replicate k 0)
      \<and> sel = str_int (index (pool ! p0)) @ ''__'' @ str_int (index (pool ! p1)) @ ''__''
               @ str_int (index (pool ! p2))))
   \<and> (3 \<le> length (filter (\<lambda>rd. synthesis_type rd \<noteq> ''interpolation'')
                 (if restrict_draw dr < 1 / 2 then take (length (latent_codes dec)) ledger
                  else ledger))
        \<and> (\<forall>rd\<in>set ledger. length (latent_code rd) = k) \<longrightarrow>
      (\<exists>sel' code'. random_arithmetic_operations_synthesis dec dr ledger = Inr (sel', code')))"
proof (intro conjI impI)
  assume "random_arithmetic_operations_synthesis dec dr ledger = Inr (sel, code)"
  from arithmetic_synthesis_char [OF this] obtain pool p0 p1 p2 where
    c: "pool = filter (\<lambda>rd. synthesis_type rd \<noteq> ''interpolation'')
                 (if restrict_draw dr < 1 / 2 then take (length (latent_codes dec)) ledger
                  else ledger)"
      "distinct [p0, p1, p2]" "p0 < length pool" "p1 < length pool" "p2 < length pool"
      "synthesis_type (pool ! p0) \<noteq> ''interpolation''"
      "synthesis_type (pool ! p1) \<noteq> ''interpolation''"
      "synthesis_type (pool ! p2) \<noteq> ''interpolation''"
    and code: "ebind (t_iadd (latent_code (pool ! p0)) (latent_code (pool ! p1)))
           (\<lambda>c. t_isub c (latent_code (pool ! p2))) = Inr code"
    and sel: "sel = str_int (index (pool ! p0)) @ ''__'' @ str_int (index (pool ! p1)) @ ''__''
               @ str_int (index (pool ! p2))"
    by blast
  have nth: "length (latent_code (pool ! p1)) = length (latent_code (pool ! p0))
           \<and> length (latent_code (pool ! p2)) = length (latent_code (pool ! p0)) \<longrightarrow>
           length code = length (latent_code (pool ! p0))
           \<and> (\<forall>i<length code. code ! i = latent_code (pool ! p0) ! i + latent_code (pool ! p1) ! i
                                          - latent_code (pool ! p2) ! i)"
    using arithmetic_codes_nth [OF code] by blast
  have zero: "latent_code (pool ! p0) = replicate k 0 \<and> latent_code (pool ! p1) = replicate k 0
           \<and> latent_code (pool ! p2) = replicate k 0 \<longrightarrow> code = replicate k 0"
    using arithmetic_codes_zero [of k code] code by auto
  show "\<exists>pool p0 p1 p2.
        pool = filter (\<lambda>rd. synthesis_type rd \<noteq> ''interpolation'')
                 (if restrict_draw dr < 1 / 2 then take (length (latent_codes dec)) ledger
                  else ledger)
      \<and> distinct [p0, p1, p2] \<and> p0 < length pool \<and> p1 < length pool \<and> p2 < length pool
      \<and> synthesis_type (pool ! p0) \<noteq> ''interpolation''
      \<and> synthesis_type (pool ! p1) \<noteq> ''interpolation''
      \<and> synthesis_type (pool ! p2) \<noteq> ''interpolation''
      \<and> ebind (t_iadd (latent_code (pool ! p0)) (latent_code (pool ! p1)))
           (\<lambda>c. t_isub c (latent_code (pool ! p2))) = Inr code
      \<and> (length (latent_code (pool ! p1)) = length (latent_code (pool ! p0))
           \<and> length (latent_code (pool ! p2)) = length (latent_code (pool ! p0)) \<longrightarrow>
           length code = length (latent_code (pool ! p0))
           \<and> (\<forall>i<length code. code ! i = latent_code (pool ! p0) ! i + latent_code (pool ! p1) ! i
                                          - latent_code (pool ! p2) ! i))
      \<and> (latent_code (pool ! p0) = replicate k 0 \<and> latent_code (pool ! p1) = replicate k 0
           \<and> latent_code (pool ! p2) = replicate k 0 \<longrightarrow> code = replicate k 0)
      \<and> sel = str_int (index (pool ! p0)) @ ''__'' @ str_int (index (pool ! p1)) @ ''__''
               @ str_int (index (pool ! p2))"
    using c code nth zero sel by blast
next
  assume "3 \<le> length (filter (\<lambda>rd. synthesis_type rd \<noteq> ''interpolation'')
                 (if restrict_draw dr < 1 / 2 then take (length (latent_codes dec)) ledger
                  else ledger))
        \<and> (\<forall>rd\<in>set ledger. length (latent_code rd) = k)"
  then show "\<exists>sel' code'. random_arithmetic_operations_synthesis dec dr ledger = Inr (sel', code')"
    using arithmetic_synthesis_total by blast
qed

lemma example_ledger_eval:
  "example_ledger =
     [\<lparr>name = IntName 0, index = 0, synthesis_type = ''initial'', latent_code = [0, 0]\<rparr>,
      \<lparr>name = IntName 1, index = 1, synthesis_type = ''initial'', latent_code = [2, 2]\<rparr>,
      \<lparr>name = IntName 2, index = 2, synthesis_type = ''initial'', latent_code = [4, 0]\<rparr>,
      \<lparr>name = StrName ''0__1__0-5.obj'', index = 3, synthesis_type = ''interpolation'',
       latent_code = [1, 1]\<rparr>,
      \<lparr>name = StrName ''3__0__0-25.obj'', index = 4, synthesis_type = ''interpolation'',
       latent_code = [3 / 4, 3 / 4]\<rparr>]"
  by (simp add: example_ledger_def seed_ledger_def zero_decoder_def enumerate_eq_zip upt_rec)

theorem arithmetic_synthesis_witness:
  "random_arithmetic_operations_synthesis zero_decoder arithmetic_draws example_ledger
     = Inr (''2__0__1'', [2, - 2])
   \<and> filter (\<lambda>rd. synthesis_type rd \<noteq> ''interpolation'') example_ledger
       = seed_ledger zero_decoder
   \<and> map latent_code (seed_ledger zero_decoder) = [[0, 0], [2, 2], [4, 0]]
   \<and> map index (seed_ledger zero_decoder) = [0, 1, 2]
   \<and> map (\<lambda>rd. length (latent_code rd)) example_ledger = [2, 2, 2, 2, 2]
   \<and> random_arithmetic_operations_synthesis flat_decoder arithmetic_draws (seed_ledger flat_decoder)
       = Inr (''2__0__1'', [0, 0])
   \<and> map latent_code (seed_ledger flat_decoder) = [replicate 2 0, replicate 2 0, replicate 2 0]"
proof -
  have run: "random_arithmetic_operations_synthesis zero_decoder arithmetic_draws example_ledger
      = Inr (''2__0__1'', [2, - 2])"
    by (simp add: random_arithmetic_operations_synthesis_def example_ledger_eval arithmetic_draws_def
        random_sample_def upt_rec ebind_simps t_iadd_def t_isub_def t_inplace_def
        str_int_def str_nat.simps digit_char_def)
  have flat: "random_arithmetic_operations_synthesis flat_decoder arithmetic_draws
      (seed_ledger flat_decoder) = Inr (''2__0__1'', [0, 0])"
    by (simp add: random_arithmetic_operations_synthesis_def seed_ledger_def flat_decoder_def
        enumerate_eq_zip arithmetic_draws_def
        random_sample_def upt_rec ebind_simps t_iadd_def t_isub_def t_inplace_def
        str_int_def str_nat.simps digit_char_def)
  have rest: "filter (\<lambda>rd. synthesis_type rd \<noteq> ''interpolation'') example_ledger
       = seed_ledger zero_decoder
   \<and> map latent_code (seed_ledger zero_decoder) = [[0, 0], [2, 2], [4, 0]]
   \<and> map index (seed_ledger zero_decoder) = [0, 1, 2]
   \<and> map (\<lambda>rd. length (latent_code rd)) example_ledger = [2, 2, 2, 2, 2]
   \<and> map latent_code (seed_ledger flat_decoder) = [replicate 2 0, replicate 2 0, replicate 2 0]"
    by (simp add: example_ledger_eval seed_ledger_def zero_decoder_def flat_decoder_def
        enumerate_eq_zip upt_rec eval_nat_numeral)
  have len: "3 \<le> length (filter (\<lambda>rd. synthesis_type rd \<noteq> ''interpolation'')
                 (if restrict_draw arithmetic_draws < 1 / 2
                  then take (length (latent_codes zero_decoder)) example_ledger
                  else example_ledger))
        \<and> (\<forall>rd\<in>set example_ledger. length (latent_code rd) = 2)"
    by (simp add: example_ledger_eval arithmetic_draws_def)
  have total: "\<exists>sel' code'. random_arithmetic_operations_synthesis zero_decoder arithmetic_draws
      example_ledger = Inr (sel', code')"
    by (rule arithmetic_synthesis [of zero_decoder arithmetic_draws example_ledger "''2__0__1''"
        "[2, - 2]" 2, THEN conjunct2, THEN mp]) (rule len)
  have zero: "\<exists>pool p0 p1 p2.
      pool = filter (\<lambda>rd. synthesis_type rd \<noteq> ''interpolation'')
                 (if restrict_draw arithmetic_draws < 1 / 2
                  then take (length (latent_codes flat_decoder)) (seed_ledger flat_decoder)
                  else seed_ledger flat_decoder)
      \<and> distinct [p0, p1, p2] \<and> p0 < length pool \<and> p1 < length pool \<and> p2 < length pool
      \<and> synthesis_type (pool ! p0) \<noteq> ''interpolation''
      \<and> synthesis_type (pool ! p1) \<noteq> ''interpolation''
      \<and> synthesis_type (pool ! p2) \<noteq> ''interpolation''
      \<and> ebind (t_iadd (latent_code (pool ! p0)) (latent_code (pool ! p1)))
           (\<lambda>c. t_isub c (latent_code (pool ! p2))) = Inr [0, 0]
      \<and> (length (latent_code (pool ! p1)) = length (latent_code (pool ! p0))
           \<and> length (latent_code (pool ! p2)) = length (latent_code (pool ! p0)) \<longrightarrow>
           length [0, 0 :: real] = length (latent_code (pool ! p0))
           \<and> (\<forall>i<length [0, 0 :: real]. [0, 0] ! i = latent_code (pool ! p0) ! i
                + latent_code (pool ! p1) ! i - latent_code (pool ! p2) ! i))
      \<and> (latent_code (pool ! p0) = replicate 2 0 \<and> latent_code (pool ! p1) = replicate 2 0
           \<and> latent_code (pool ! p2) = replicate 2 0 \<longrightarrow> [0, 0] = replicate 2 (0 :: real))
      \<and> ''2__0__1'' = str_int (index (pool ! p0)) @ ''__'' @ str_int (index (pool ! p1)) @ ''__''
               @ str_int (index (pool ! p2))"
    by (rule arithmetic_synthesis [of flat_decoder arithmetic_draws "seed_ledger flat_decoder"
        "''2__0__1''" "[0, 0]" 2, THEN conjunct1, THEN mp]) (rule flat)
  from total zero show ?thesis
    by (simp only: run flat rest simp_thms)
qed

section \<open>Properties of the synthesis loop\<close>

lemma synthesize_effect:
  assumes "synthesize rc dec lc save_name resolution n m c s = Inr (mo, s1)"
  shows "data s1 = data s
     \<and> (\<exists>calls. case (mo, save_name) of
           (Some msh, Some nm) \<Rightarrow>
             files s1 = (files s)(nm \<mapsto> ObjFile msh)
             \<and> events s1 = events s @ map DecoderCall calls @ [Export nm]
         | _ \<Rightarrow> files s1 = files s \<and> events s1 = events s @ map DecoderCall calls)"
proof -
  from assms obtain coords g where gv: "get_volume_coords rc resolution = Inr (coords, g)"
    by (cases "get_volume_coords rc resolution") (auto simp: synthesize_def ebind_simps)
  from assms gv obtain batches where
    sp: "torch_split coords (int (length coords) div 1000) = Inr batches"
    by (cases "torch_split coords (int (length coords) div 1000)")
       (auto simp: synthesize_def ebind_simps)
  from assms gv sp obtain sdf ev where
    db: "decode_batches dec lc batches [] (events s) = Inr (sdf, ev)"
    by (cases "decode_batches dec lc batches [] (events s)")
       (auto simp: synthesize_def ebind_simps)
  from assms gv sp db have ex: "extract_mesh rc g sdf n m c = Inr mo"
    and s1: "s1 = (case (mo, save_name) of
               (Some msh, Some nm) \<Rightarrow>
                 s\<lparr>files := (files s)(nm \<mapsto> ObjFile msh), events := ev @ [Export nm]\<rparr>
             | _ \<Rightarrow> s\<lparr>events := ev\<rparr>)"
    by (cases "extract_mesh rc g sdf n m c"; auto simp: synthesize_def ebind_simps)+
  have ev: "ev = events s @ map DecoderCall (map length batches)"
    using decode_batches_events [OF db] by (simp add: comp_def)
  have "case (mo, save_name) of
           (Some msh, Some nm) \<Rightarrow>
             files s1 = (files s)(nm \<mapsto> ObjFile msh)
             \<and> events s1 = events s @ map DecoderCall (map length batches) @ [Export nm]
         | _ \<Rightarrow> files s1 = files s
             \<and> events s1 = events s @ map DecoderCall (map length batches)"
    unfolding s1 ev by (cases mo; cases save_name) simp_all
  moreover have "data s1 = data s"
    unfolding s1 by (cases mo; cases save_name) simp_all
  ultimately show ?thesis by blast
qed

lemma iteration_skip:
  assumes "candidate dec dr (data s) = Inr (ty, nm, code)"
    and "files s (os_path_join save_dir nm) \<noteq> None"
  shows "iteration rc dec save_dir resolution mz cw dr s = Inr (Skipped, s)"
  using assms by (simp add: iteration_def ebind_simps)

lemma iteration_extend:
  assumes "candidate dec dr (data s) = Inr (ty, nm, code)"
    and "files s (os_path_join save_dir nm) = None"
    and "synthesize rc dec code (Some (os_path_join save_dir nm)) resolution True mz cw s
           = Inr (mo, s1)"
  shows "iteration rc dec save_dir resolution mz cw dr s =
     Inr (Extended,
          s1\<lparr>data := data s1 @ [\<lparr>name = StrName nm, index = int (length (data s1)),
                                  synthesis_type = ty, latent_code = code\<rparr>],
             files := (files s1)(ledger_path save_dir \<mapsto>
                        NpzFile (data s1 @ [\<lparr>name = StrName nm, index = int (length (data s1)),
                                             synthesis_type = ty, latent_code = code\<rparr>])),
             events := events s1 @ [Savez (ledger_path save_dir)]\<rparr>)"
  using assms by (simp add: iteration_def ebind_simps)

lemma iteration_cases:
  assumes "iteration rc dec save_dir resolution mz cw dr s = Inr (out, s')"
  shows "(out = Skipped \<and> s' = s)
     \<or> (out = Extended \<and> (\<exists>r. data s' = data s @ [r] \<and> index r = int (length (data s))))"
proof -
  from assms obtain ty nm code where cand: "candidate dec dr (data s) = Inr (ty, nm, code)"
    by (cases "candidate dec dr (data s)") (auto simp: iteration_def ebind_simps)
  show ?thesis
  proof (cases "files s (os_path_join save_dir nm) = None")
    case False
    with assms iteration_skip [OF cand] show ?thesis by auto
  next
    case True
    with assms cand obtain mo s1 where
      syn: "synthesize rc dec code (Some (os_path_join save_dir nm)) resolution True mz cw s
              = Inr (mo, s1)"
      by (cases "synthesize rc dec code (Some (os_path_join save_dir nm)) resolution True mz cw s")
         (auto simp: iteration_def ebind_simps)
    from synthesize_effect [OF syn] have d: "data s1 = data s" by simp
    from assms iteration_extend [OF cand True syn] d show ?thesis by auto
  qed
qed

lemma synthesis_loop_appends:
  assumes "synthesis_loop rc dec save_dir cnt resolution mz cw drs s = Inr (outs, s')"
  shows "\<exists>new. data s' = data s @ new \<and> length new = count_list outs Extended
           \<and> (\<forall>k<length new. index (new ! k) = int (length (data s) + k))"
  using assms
proof (induction drs arbitrary: s outs s')
  case Nil
  then show ?case by simp
next
  case (Cons dr drs)
  show ?case
  proof (cases "enat (length (data s)) < cnt")
    case False
    with Cons.prems show ?thesis by simp
  next
    case True
    with Cons.prems obtain out s1 where
      it: "iteration rc dec save_dir resolution mz cw dr s = Inr (out, s1)"
      by (cases "iteration rc dec save_dir resolution mz cw dr s") (auto simp: ebind_simps)
    with True Cons.prems obtain outs1 where
      rest: "synthesis_loop rc dec save_dir cnt resolution mz cw drs s1 = Inr (outs1, s')"
      and outs: "outs = out # outs1"
      by (cases "synthesis_loop rc dec save_dir cnt resolution mz cw drs s1")
         (auto simp: ebind_simps)
    from Cons.IH [OF rest] obtain new1 where new1: "data s' = data s1 @ new1"
      "length new1 = count_list outs1 Extended"
      "\<forall>k<length new1. index (new1 ! k) = int (length (data s1) + k)"
      by blast
    from iteration_cases [OF it] show ?thesis
    proof
      assume "out = Skipped \<and> s1 = s"
      with new1 outs show ?thesis by auto
    next
      assume "out = Extended \<and> (\<exists>r. data s1 = data s @ [r] \<and> index r = int (length (data s)))"
      then obtain r where out: "out = Extended" and r: "data s1 = data s @ [r]"
        "index r = int (length (data s))" by blast
      have "data s' = data s @ (r # new1)" using new1(1) r(1) by simp
      moreover have "length (r # new1) = count_list outs Extended"
        using new1(2) outs out by simp
      moreover have "\<forall>k<length (r # new1). index ((r # new1) ! k) = int (length (data s) + k)"
      proof (intro allI impI)
        fix k assume "k < length (r # new1)"
        then show "index ((r # new1) ! k) = int (length (data s) + k)"
          using new1(3) r by (cases k) simp_all
      qed
      ultimately show ?thesis by blast
    qed
  qed
qed

lemma seed_ledger_length: "length (seed_ledger dec) = length (latent_codes dec)"
  by (simp add: seed_ledger_def)

lemma seed_ledger_index: "k < length (latent_codes dec) \<Longrightarrow> index (seed_ledger dec ! k) = int k"
  by (simp add: seed_ledger_def nth_enumerate_eq)

lemma os_path_join_last: "b \<noteq> [] \<Longrightarrow> last (os_path_join a b) = last b"
  by (simp add: os_path_join_def)

lemma os_path_join_longer: "b \<noteq> [] \<Longrightarrow> hd b \<noteq> CHR ''/'' \<Longrightarrow> os_path_join a b \<noteq> a"
  by (simp add: os_path_join_def)

lemma ledger_path_not_dir: "ledger_path save_dir \<noteq> save_dir"
  unfolding ledger_path_def by (rule os_path_join_longer) simp_all

lemma ledger_path_last: "last (ledger_path save_dir) = CHR ''z''"
  unfolding ledger_path_def by (subst os_path_join_last) simp_all

lemma candidate_name_obj:
  assumes "candidate dec dr ledger = Inr (ty, nm, code)"
  shows "\<exists>stem. nm = stem @ ''.obj''"
  using assms
  by (auto simp: candidate_def ebind_def split: if_splits sum.splits)

lemma candidate_not_ledger_path:
  assumes "candidate dec dr ledger = Inr (ty, nm, code)"
  shows "os_path_join save_dir nm \<noteq> ledger_path save_dir"
proof -
  from candidate_name_obj [OF assms] obtain stem where nm: "nm = stem @ ''.obj''" by blast
  then have "last (os_path_join save_dir nm) = CHR ''j''"
    by (subst os_path_join_last) simp_all
  with ledger_path_last [of save_dir] show ?thesis by auto
qed


subsection \<open>The example run\<close>

lemma seed_ledger_zero_decoder:
  "seed_ledger zero_decoder =
     [\<lparr>name = IntName 0, index = 0, synthesis_type = ''initial'', latent_code = [0, 0]\<rparr>,
      \<lparr>name = IntName 1, index = 1, synthesis_type = ''initial'', latent_code = [2, 2]\<rparr>,
      \<lparr>name = IntName 2, index = 2, synthesis_type = ''initial'', latent_code = [4, 0]\<rparr>]"
  by (simp add: seed_ledger_def zero_decoder_def enumerate_eq_zip upt_rec)

lemma example_paths:
  "ledger_path ''out'' = ''out/infinite_synthesized_latent_codes.npz''"
  "os_path_join ''out'' ''2__0__1.obj'' = ''out/2__0__1.obj''"
  by (simp_all add: ledger_path_def os_path_join_def)

lemma candidate_seeded:
  "candidate zero_decoder arithmetic_draws (seed_ledger zero_decoder)
     = Inr (''arithmetic'', ''2__0__1.obj'', [2, - 2])"
  by (simp add: candidate_def random_arithmetic_operations_synthesis_def seed_ledger_zero_decoder
      arithmetic_draws_def random_sample_def upt_rec ebind_simps t_iadd_def t_isub_def
      t_inplace_def str_int_def str_nat.simps digit_char_def)

lemma candidate_after_one:
  "candidate zero_decoder arithmetic_draws (seed_ledger zero_decoder @ [synthesized_record])
     = Inr (''arithmetic'', ''2__0__1.obj'', [2, - 2])"
  by (simp add: candidate_def random_arithmetic_operations_synthesis_def seed_ledger_zero_decoder
      synthesized_record_def
      arithmetic_draws_def random_sample_def upt_rec ebind_simps t_iadd_def t_isub_def
      t_inplace_def str_int_def str_nat.simps digit_char_def)

lemma synthesize_seeded_tetrahedron:
  "synthesize tetrahedron_reconstructor zero_decoder [2, - 2] (Some ''out/2__0__1.obj'')
       128 True True True seeded_state
     = Inr (Some tetrahedron,
            seeded_state\<lparr>files := (files seeded_state)(''out/2__0__1.obj'' \<mapsto> ObjFile tetrahedron),
                         events := replicate 1000 (DecoderCall 1) @ [Export ''out/2__0__1.obj'']\<rparr>)"
proof -
  have g: "get_volume_coords tetrahedron_reconstructor 128 = Inr (replicate 1000 [0, 0, 0], 10)"
    by (simp add: tetrahedron_reconstructor_def)
  show ?thesis
    unfolding synthesize_thousand_zero_decoder [OF g]
    by (simp add: tetrahedron_reconstructor_def seeded_state_def ebind_simps)
qed

lemma synthesize_seeded_no_surface:
  "synthesize no_surface_reconstructor zero_decoder [2, - 2] (Some ''out/2__0__1.obj'')
       128 True True True seeded_state
     = Inr (None, seeded_state\<lparr>events := replicate 1000 (DecoderCall 1)\<rparr>)"
proof -
  have g: "get_volume_coords no_surface_reconstructor 128 = Inr (replicate 1000 [0, 0, 0], 10)"
    by (simp add: no_surface_reconstructor_def)
  show ?thesis
    unfolding synthesize_thousand_zero_decoder [OF g]
    by (simp add: no_surface_reconstructor_def seeded_state_def ebind_simps)
qed

lemma iteration_seeded_tetrahedron:
  "iteration tetrahedron_reconstructor zero_decoder ''out'' 128 True True arithmetic_draws seeded_state
     = Inr (Extended, after_one_synthesis)"
proof -
  have c: "candidate zero_decoder arithmetic_draws (data seeded_state)
      = Inr (''arithmetic'', ''2__0__1.obj'', [2, - 2])"
    using candidate_seeded by (simp add: seeded_state_def)
  have f: "files seeded_state (os_path_join ''out'' ''2__0__1.obj'') = None"
    by (simp add: example_paths seeded_state_def)
  have s: "synthesize tetrahedron_reconstructor zero_decoder [2, - 2]
      (Some (os_path_join ''out'' ''2__0__1.obj'')) 128 True True True seeded_state
     = Inr (Some tetrahedron,
            seeded_state\<lparr>files := (files seeded_state)(''out/2__0__1.obj'' \<mapsto> ObjFile tetrahedron),
                         events := replicate 1000 (DecoderCall 1) @ [Export ''out/2__0__1.obj'']\<rparr>)"
    using synthesize_seeded_tetrahedron by (simp add: example_paths)
  show ?thesis
    unfolding iteration_extend [OF c f s]
    by (simp add: seeded_state_def after_one_synthesis_def synthesized_record_def example_paths
        seed_ledger_length zero_decoder_def)
qed

lemma iteration_after_one:
  "iteration rc zero_decoder ''out'' 128 True True arithmetic_draws after_one_synthesis
     = Inr (Skipped, after_one_synthesis)"
proof -
  have c: "candidate zero_decoder arithmetic_draws (data after_one_synthesis)
      = Inr (''arithmetic'', ''2__0__1.obj'', [2, - 2])"
    using candidate_after_one by (simp add: after_one_synthesis_def)
  have f: "files after_one_synthesis (os_path_join ''out'' ''2__0__1.obj'') \<noteq> None"
    by (simp add: example_paths after_one_synthesis_def)
  show ?thesis by (rule iteration_skip [OF c f])
qed

lemma infinite_synthesis_example:
  "infinite_synthesis tetrahedron_reconstructor zero_decoder ''out'' \<infinity> 128 True True
       [arithmetic_draws, arithmetic_draws] Map.empty
     = Inr ([Extended, Skipped], after_one_synthesis)"
proof -
  have start: "\<lparr>data = seed_ledger zero_decoder, files = [''out'' \<mapsto> Directory], events = []\<rparr>
      = seeded_state"
    by (simp add: seeded_state_def)
  have len: "enat (length (data seeded_state)) < \<infinity>" "enat (length (data after_one_synthesis)) < \<infinity>"
    by simp_all
  show ?thesis
    by (simp add: infinite_synthesis_def os_makedirs_def ebind_simps example_paths start
        len iteration_seeded_tetrahedron iteration_after_one)
qed


subsection \<open>The claims about the loop\<close>

lemma infinite_synthesis_seeded:
  assumes "fs (ledger_path save_dir) = None"
    and "infinite_synthesis rc dec save_dir cnt resolution mz cw drs fs = Inr (outs, s)"
  shows "\<exists>fs1. synthesis_loop rc dec save_dir cnt resolution mz cw drs
           \<lparr>data = seed_ledger dec, files = fs1, events = []\<rparr> = Inr (outs, s)"
proof -
  from assms(2) obtain fs1 where mk: "os_makedirs fs save_dir = Inr fs1"
    by (cases "os_makedirs fs save_dir") (auto simp: infinite_synthesis_def ebind_simps)
  then have "fs1 = fs \<or> fs1 = fs(save_dir \<mapsto> Directory)"
    by (auto simp: os_makedirs_def split: option.splits disk_file.splits)
  with assms(1) have "fs1 (ledger_path save_dir) = None"
    using ledger_path_not_dir [of save_dir] by auto
  with assms(2) mk show ?thesis
    by (auto simp: infinite_synthesis_def ebind_simps)
qed

text \<open>
  Claim C1. Ledger append invariant: when \<^verbatim>\<open>infinite_synthesis\<close> starts without a
  ledger file, so from the seeded ledger with one \<open>initial\<close> record per pretrained
  latent code, then after any number of iterations of which \<open>n\<close> were not skipped the
  ledger has \<open>initial_length + n\<close> records, the record at every position \<open>k\<close> has
  \<open>index = k\<close>, and the seeded records are still its first records.
\<close>

theorem ledger_append_invariant:
  assumes "fs (ledger_path save_dir) = None"
    and "infinite_synthesis rc dec save_dir cnt resolution mz cw drs fs = Inr (outs, s)"
  shows "length (data s) = length (latent_codes dec) + count_list outs Extended
     \<and> (\<forall>k<length (data s). index (data s ! k) = int k)
     \<and> take (length (latent_codes dec)) (data s) = seed_ledger dec"
proof -
  from infinite_synthesis_seeded [OF assms] obtain fs1 where
    "synthesis_loop rc dec save_dir cnt resolution mz cw drs
       \<lparr>data = seed_ledger dec, files = fs1, events = []\<rparr> = Inr (outs, s)"
    by blast
  from synthesis_loop_appends [OF this] obtain new where
    new: "data s = seed_ledger dec @ new" "length new = count_list outs Extended"
      "\<forall>k<length new. index (new ! k) = int (length (seed_ledger dec) + k)"
    by auto
  have "index (data s ! k) = int k" if "k < length (data s)" for k
  proof (cases "k < length (latent_codes dec)")
    case True
    then show ?thesis
      by (simp add: new(1) nth_append seed_ledger_length seed_ledger_index)
  next
    case False
    with that new(1) have "k - length (latent_codes dec) < length new"
      by (simp add: seed_ledger_length)
    with new(3) False show ?thesis
      by (simp add: new(1) nth_append seed_ledger_length)
  qed
  with new show ?thesis by (simp add: seed_ledger_length)
qed

theorem ledger_append_invariant_witness:
  "(Map.empty :: string \<Rightarrow> disk_file option) (ledger_path ''out'') = None
   \<and> infinite_synthesis tetrahedron_reconstructor zero_decoder ''out'' \<infinity> 128 True True
       [arithmetic_draws, arithmetic_draws] Map.empty
     = Inr ([Extended, Skipped], after_one_synthesis)
   \<and> length (latent_codes zero_decoder) = 3
   \<and> count_list [Extended, Skipped] Extended = 1
   \<and> length (data after_one_synthesis) = 4
   \<and> map index (data after_one_synthesis) = [0, 1, 2, 3]"
proof -
  have e: "(Map.empty :: string \<Rightarrow> disk_file option) (ledger_path ''out'') = None" by simp
  have rest: "length (latent_codes zero_decoder) = 3
   \<and> count_list [Extended, Skipped] Extended = 1
   \<and> map index (data after_one_synthesis) = [0, 1, 2, 3]"
    by (simp add: seed_ledger_length [symmetric] after_one_synthesis_def
        seed_ledger_zero_decoder synthesized_record_def)
  from ledger_append_invariant [OF e infinite_synthesis_example] rest
  show ?thesis
    by (simp add: infinite_synthesis_example)
qed

text \<open>
  Claim C7. Idempotent skip: in every iteration in which the derived target file name
  already exists on disk, the iteration leaves through \<^verbatim>\<open>continue\<close> with the state as it
  was: no record is appended to the ledger, no file is written (the ledger file is not
  rewritten), no call of the decoder is logged; and the loop goes on with the next
  iteration from that same state.
\<close>

theorem skip_existing_target:
  assumes "candidate dec dr (data s) = Inr (ty, nm, code)"
    and "files s (os_path_join save_dir nm) \<noteq> None"
  shows "(\<exists>s'. iteration rc dec save_dir resolution mz cw dr s = Inr (Skipped, s')
            \<and> data s' = data s \<and> files s' = files s \<and> events s' = events s \<and> s' = s)
     \<and> (enat (length (data s)) < cnt \<longrightarrow>
          synthesis_loop rc dec save_dir cnt resolution mz cw (dr # drs) s =
            ebind (synthesis_loop rc dec save_dir cnt resolution mz cw drs s)
              (\<lambda>(outs, s'). Inr (Skipped # outs, s')))"
  using iteration_skip [OF assms, of rc resolution mz cw]
  by (simp add: ebind_simps)

theorem skip_existing_target_witness:
  "candidate zero_decoder arithmetic_draws (data after_one_synthesis)
     = Inr (''arithmetic'', ''2__0__1.obj'', [2, - 2])
   \<and> files after_one_synthesis (os_path_join ''out'' ''2__0__1.obj'') = Some (ObjFile tetrahedron)
   \<and> iteration tetrahedron_reconstructor zero_decoder ''out'' 128 True True arithmetic_draws
        after_one_synthesis = Inr (Skipped, after_one_synthesis)
   \<and> enat (length (data after_one_synthesis)) < \<infinity>
   \<and> synthesis_loop tetrahedron_reconstructor zero_decoder ''out'' \<infinity> 128 True True
        [arithmetic_draws] after_one_synthesis = Inr ([Skipped], after_one_synthesis)"
proof -
  have c: "candidate zero_decoder arithmetic_draws (data after_one_synthesis)
      = Inr (''arithmetic'', ''2__0__1.obj'', [2, - 2])"
    using candidate_after_one by (simp add: after_one_synthesis_def)
  have f: "files after_one_synthesis (os_path_join ''out'' ''2__0__1.obj'') = Some (ObjFile tetrahedron)"
    by (simp add: example_paths after_one_synthesis_def)
  then have f': "files after_one_synthesis (os_path_join ''out'' ''2__0__1.obj'') \<noteq> None"
    by simp
  from skip_existing_target [OF c f', of tetrahedron_reconstructor 128 True True \<infinity> "[]"] c f
  show ?thesis
    by (simp add: ebind_simps)
qed

text \<open>
  Claim C9. In every iteration that is not skipped and in which \<^verbatim>\<open>synthesize\<close>
  returns \<^verbatim>\<open>None\<close> (the mesh extraction found no surface), a record with the derived
  name is still appended to the ledger with \<open>index\<close> = the ledger's length, and the ledger
  file is written with the extended ledger; no mesh is exported (the log gains decoder
  calls and the one \<^verbatim>\<open>np.savez\<close> only, and no file but the ledger file changes), so
  the file the record's name refers to does not exist.
\<close>

theorem null_mesh_still_recorded:
  assumes "candidate dec dr (data s) = Inr (ty, nm, code)"
    and "files s (os_path_join save_dir nm) = None"
    and "synthesize rc dec code (Some (os_path_join save_dir nm)) resolution True mz cw s
           = Inr (None, s1)"
  shows "\<exists>s'. iteration rc dec save_dir resolution mz cw dr s = Inr (Extended, s')
     \<and> data s' = data s @ [\<lparr>name = StrName nm, index = int (length (data s)),
                              synthesis_type = ty, latent_code = code\<rparr>]
     \<and> files s' (ledger_path save_dir) = Some (NpzFile (data s'))
     \<and> files s' (os_path_join save_dir nm) = None
     \<and> (\<forall>p. p \<noteq> ledger_path save_dir \<longrightarrow> files s' p = files s p)
     \<and> (\<exists>calls. events s' = events s @ map DecoderCall calls @ [Savez (ledger_path save_dir)])"
proof -
  from synthesize_effect [OF assms(3)] obtain calls where
    e: "data s1 = data s" "files s1 = files s" "events s1 = events s @ map DecoderCall calls"
    by auto
  have ne: "os_path_join save_dir nm \<noteq> ledger_path save_dir"
    by (rule candidate_not_ledger_path [OF assms(1)])
  show ?thesis
    unfolding iteration_extend [OF assms]
    using e ne assms(2) by auto
qed

theorem null_mesh_still_recorded_witness:
  "candidate zero_decoder arithmetic_draws (data seeded_state)
     = Inr (''arithmetic'', ''2__0__1.obj'', [2, - 2])
   \<and> files seeded_state (os_path_join ''out'' ''2__0__1.obj'') = None
   \<and> synthesize no_surface_reconstructor zero_decoder [2, - 2]
        (Some (os_path_join ''out'' ''2__0__1.obj'')) 128 True True True seeded_state
       = Inr (None, seeded_state\<lparr>events := replicate 1000 (DecoderCall 1)\<rparr>)
   \<and> iteration no_surface_reconstructor zero_decoder ''out'' 128 True True arithmetic_draws
        seeded_state = Inr (Extended, after_null_synthesis)
   \<and> data after_null_synthesis = data seeded_state @ [synthesized_record]
   \<and> files after_null_synthesis ''out/2__0__1.obj'' = None"
proof -
  have c: "candidate zero_decoder arithmetic_draws (data seeded_state)
      = Inr (''arithmetic'', ''2__0__1.obj'', [2, - 2])"
    using candidate_seeded by (simp add: seeded_state_def)
  have f: "files seeded_state (os_path_join ''out'' ''2__0__1.obj'') = None"
    by (simp add: example_paths seeded_state_def)
  have s: "synthesize no_surface_reconstructor zero_decoder [2, - 2]
      (Some (os_path_join ''out'' ''2__0__1.obj'')) 128 True True True seeded_state
     = Inr (None, seeded_state\<lparr>events := replicate 1000 (DecoderCall 1)\<rparr>)"
    using synthesize_seeded_no_surface by (simp add: example_paths)
  have i: "iteration no_surface_reconstructor zero_decoder ''out'' 128 True True arithmetic_draws
        seeded_state = Inr (Extended, after_null_synthesis)"
    unfolding iteration_extend [OF c f s]
    by (simp add: seeded_state_def after_null_synthesis_def synthesized_record_def example_paths
        seed_ledger_length zero_decoder_def)
  have r: "data after_null_synthesis = data seeded_state @ [synthesized_record]
      \<and> files after_null_synthesis ''out/2__0__1.obj'' = None"
    by (simp add: after_null_synthesis_def seeded_state_def)
  from null_mesh_still_recorded [OF c f s] c f s i r
  show ?thesis by simp
qed

section \<open>Properties of the string functions\<close>

lemma is_digit_digit_char: "d < 10 \<Longrightarrow> is_digit (digit_char d)"
  unfolding digit_char_def is_digit_def by (rule nth_mem) simp

lemma digit_val_digit_char: "d < 10 \<Longrightarrow> digit_val (digit_char d) = d"
proof -
  assume "d < 10"
  then have "d \<in> {0, 1, 2, 3, 4, 5, 6, 7, 8, 9}" by auto
  then show ?thesis by (auto simp: digit_char_def digit_val_def)
qed

lemma is_digit_plain:
  assumes "is_digit c"
  shows "c \<noteq> CHR ''_''" "c \<noteq> CHR ''.''" "c \<noteq> CHR ''-''" "c \<noteq> CHR ''+''" "\<not> is_space c"
  using assms by (auto simp: is_digit_def is_space_def)

lemma str_nat_digits: "c \<in> set (str_nat n) \<Longrightarrow> is_digit c"
proof (induction n arbitrary: c rule: str_nat.induct)
  case (1 n)
  show ?case
  proof (cases "n < 10")
    case True
    with 1(2) show ?thesis
      by (subst (asm) str_nat.simps) (simp add: is_digit_digit_char)
  next
    case False
    from 1(2) have "c \<in> set (str_nat (n div 10)) \<or> c = digit_char (n mod 10)"
      using False by (subst (asm) str_nat.simps) auto
    then show ?thesis
    proof
      assume "c \<in> set (str_nat (n div 10))"
      then show ?thesis by (rule 1(1) [OF False])
    next
      assume "c = digit_char (n mod 10)"
      then show ?thesis by (simp add: is_digit_digit_char)
    qed
  qed
qed

lemma str_nat_not_Nil: "str_nat n \<noteq> []"
  by (subst str_nat.simps) simp

lemma str_int_chars: "c \<in> set (str_int a) \<Longrightarrow> c = CHR ''-'' \<or> is_digit c"
  by (cases "a < 0") (auto simp: str_int_def dest: str_nat_digits)

lemma str_int_no_underscore: "CHR ''_'' \<notin> set (str_int a)"
  using str_int_chars [of "CHR ''_''" a] is_digit_plain(1) [of "CHR ''_''"] by auto

lemma str_int_no_dot: "CHR ''.'' \<notin> set (str_int a)"
  using str_int_chars [of "CHR ''.''" a] is_digit_plain(2) [of "CHR ''.''"] by auto

lemma str_int_no_space: "c \<in> set (str_int a) \<Longrightarrow> \<not> is_space c"
proof -
  assume "c \<in> set (str_int a)"
  then have "c = CHR ''-'' \<or> is_digit c" by (rule str_int_chars)
  then show ?thesis
  proof
    assume "c = CHR ''-''"
    then show ?thesis by (simp add: is_space_def)
  next
    assume "is_digit c"
    then show ?thesis by (rule is_digit_plain(5))
  qed
qed

lemma strip_id:
  assumes "\<forall>c\<in>set s. \<not> is_space c"
  shows "strip s = s"
proof (cases s)
  case Nil
  then show ?thesis by (simp add: strip_def)
next
  case (Cons c cs)
  with assms have 1: "dropWhile is_space s = s" by simp
  have ne: "rev s \<noteq> []" using Cons by simp
  then have "hd (rev s) \<in> set (rev s)" by (rule hd_in_set)
  with ne have "dropWhile is_space (rev s) = rev s"
    using assms by (simp add: dropWhile_eq_self_iff)
  with 1 show ?thesis by (simp add: strip_def)
qed

lemma parse_digits_all:
  "\<forall>c\<in>set ds. is_digit c \<Longrightarrow>
     parse_digits acc ds = Some (foldl (\<lambda>a c. 10 * a + digit_val c) acc ds)"
  by (induction acc ds rule: parse_digits.induct) simp_all

lemma str_nat_value: "foldl (\<lambda>a c. 10 * a + digit_val c) 0 (str_nat n) = n"
proof (induction n rule: str_nat.induct)
  case (1 n)
  show ?case
  proof (cases "n < 10")
    case True
    then show ?thesis by (subst str_nat.simps) (simp add: digit_val_digit_char)
  next
    case False
    with 1 show ?thesis
      by (subst str_nat.simps) (simp add: digit_val_digit_char)
  qed
qed

lemma parse_unsigned_str_nat: "parse_unsigned (str_nat n) = Some n"
proof -
  obtain c cs where eq: "str_nat n = c # cs"
    using str_nat_not_Nil [of n] by (cases "str_nat n") auto
  have digits: "\<forall>c\<in>set (str_nat n). is_digit c"
    using str_nat_digits by blast
  then have "parse_unsigned (str_nat n) = Some (foldl (\<lambda>a c. 10 * a + digit_val c) 0 (str_nat n))"
    by (simp add: eq parse_unsigned_def parse_digits_all)
  then show ?thesis by (simp add: str_nat_value)
qed

lemma py_int_str_int: "py_int (str_int a) = Inr a"
proof -
  have strip: "strip (str_int a) = str_int a"
    using str_int_no_space by (intro strip_id) blast
  show ?thesis
  proof (cases "a < 0")
    case True
    then show ?thesis
      by (simp add: py_int_def strip) (simp add: str_int_def parse_unsigned_str_nat)
  next
    case False
    obtain c cs where eq: "str_nat (nat a) = c # cs"
      using str_nat_not_Nil [of "nat a"] by (cases "str_nat (nat a)") auto
    then have "is_digit c" using str_nat_digits [of c "nat a"] by simp
    then have c: "c \<noteq> CHR ''-''" "c \<noteq> CHR ''+''" by (rule is_digit_plain)+
    have "parse_unsigned (c # cs) = Some (nat a)"
      using parse_unsigned_str_nat [of "nat a"] by (simp add: eq)
    with False c show ?thesis
      by (simp add: py_int_def strip) (simp add: str_int_def eq)
  qed
qed

lemma split_dunder_plain:
  "CHR ''_'' \<notin> set y \<Longrightarrow> split_dunder cur y = [cur @ y]"
  by (induction cur y rule: split_dunder.induct) auto

lemma split_dunder_piece:
  "CHR ''_'' \<notin> set x \<Longrightarrow>
     split_dunder cur (x @ ''__'' @ rest) = (cur @ x) # split_dunder [] rest"
proof (induction x arbitrary: cur)
  case Nil
  then show ?case by simp
next
  case (Cons c x)
  then have c: "c \<noteq> CHR ''_''" by auto
  have "split_dunder cur ((c # x) @ ''__'' @ rest) = split_dunder (cur @ [c]) (x @ ''__'' @ rest)"
    using c by (cases x) simp_all
  with Cons show ?case by simp
qed

lemma remove_obj_plain: "CHR ''.'' \<notin> set x \<Longrightarrow> remove_obj x = x"
  by (induction x rule: remove_obj.induct) auto

lemma remove_obj_suffix: "CHR ''.'' \<notin> set x \<Longrightarrow> remove_obj (x @ ''.obj'') = x"
proof (induction x)
  case Nil
  then show ?case by simp
next
  case (Cons c x)
  then have c: "c \<noteq> CHR ''.''" by auto
  obtain b1 b2 b3 bs where eq: "x @ ''.obj'' = b1 # b2 # b3 # bs"
    by (cases x; cases "tl x"; cases "tl (tl x)") auto
  have "remove_obj ((c # x) @ ''.obj'') = c # remove_obj (x @ ''.obj'')"
    using c by (simp add: eq)
  with Cons show ?case by simp
qed

lemma dot_to_dash_no_underscore:
  "CHR ''_'' \<notin> set s \<Longrightarrow> CHR ''_'' \<notin> set (dot_to_dash s)"
  by (induction s) (simp_all add: dot_to_dash_def)

lemma str_thousandths_no_underscore: "CHR ''_'' \<notin> set (dot_to_dash (str_thousandths k))"
proof -
  have d: "(nat \<bar>k\<bar> mod 1000) div 100 < 10" "(nat \<bar>k\<bar> mod 100) div 10 < 10" "nat \<bar>k\<bar> mod 10 < 10"
    by (simp_all add: less_mult_imp_div_less)
  have u: "digit_char d \<noteq> CHR ''_''" if "d < 10" for d
    using is_digit_plain(1) [OF is_digit_digit_char [OF that]] .
  have n: "CHR ''_'' \<notin> set (str_nat m)" for m
    using str_nat_digits [of "CHR ''_''" m] is_digit_plain(1) [of "CHR ''_''"] by auto
  have "CHR ''_'' \<notin> set (str_thousandths k)"
    using d [THEN u] by (simp add: str_thousandths_def Let_def n)
  then show ?thesis by (rule dot_to_dash_no_underscore)
qed

section \<open>Properties of \<^verbatim>\<open>trace_back_to_origin\<close>\<close>

lemma well_formedD:
  assumes "well_formed ledger" and "k < length ledger"
  shows "well_formed_at k (ledger ! k)"
proof -
  from assms(1) have "\<forall>n<length (List.enumerate 0 ledger).
      (\<lambda>(k, r). well_formed_at k r) (List.enumerate 0 ledger ! n)"
    by (simp add: well_formed_def list_all_length)
  with assms(2) show ?thesis by (simp add: nth_enumerate_eq)
qed

lemma well_formed_parents:
  assumes "well_formed ledger" and "0 \<le> x" and "x < int (length ledger)"
  shows "\<exists>ps. parent_indices (ledger ! nat x) = Inr ps \<and> children ledger x = ps
           \<and> (\<forall>p\<in>set ps. 0 \<le> p \<and> p < int (length ledger))"
proof -
  from assms have "well_formed_at (nat x) (ledger ! nat x)"
    by (intro well_formedD) simp_all
  then obtain ps where ps: "parent_indices (ledger ! nat x) = Inr ps"
    and all: "list_all (\<lambda>p. 0 \<le> p \<and> p < int (nat x)) ps"
    by (auto simp: well_formed_at_def split: sum.splits)
  from all assms(2) have range: "\<forall>p\<in>set ps. 0 \<le> p \<and> p < x"
    by (simp add: list_all_iff)
  then have "filter (\<lambda>p. 0 \<le> p \<and> p < x) ps = ps" by simp
  with ps have "children ledger x = ps" by (simp add: children_def)
  with ps range assms(3) show ?thesis by fastforce
qed

lemma trace_step_well_formed:
  assumes "well_formed ledger" and "0 \<le> x" and "x < int (length ledger)"
  shows "\<exists>ind'. trace_step ledger (x # q, traced, ind) =
           Inr (q @ children ledger x, traced @ [ledger ! nat x], ind')"
proof -
  from well_formed_parents [OF assms] obtain ps where
    ps: "parent_indices (ledger ! nat x) = Inr ps" "children ledger x = ps"
    by blast
  have get: "np_getitem ledger x = Inr (ledger ! nat x)"
    using assms(2,3) by (simp add: np_getitem_def)
  show ?thesis
  proof (cases "synthesis_type (ledger ! nat x) = ''initial''")
    case True
    with ps have "ps = []" by (simp add: parent_indices_def)
    with True get ps(2) show ?thesis by (simp add: trace_step_def ebind_simps)
  next
    case False
    show ?thesis
    proof (cases "synthesis_type (ledger ! nat x) = ''interpolation''")
      case True
      with ps(1) have "interpolation_indices (ledger ! nat x) = Inr ps"
        by (simp add: parent_indices_def)
      with True get ps(2) show ?thesis by (simp add: trace_step_def ebind_simps)
    next
      case ni: False
      with False ps(1) have ar: "synthesis_type (ledger ! nat x) = ''arithmetic''"
        by (auto simp: parent_indices_def split: if_splits)
      with ps(1) have "arithmetic_indices (ledger ! nat x) = Inr ps"
        by (simp add: parent_indices_def)
      with ar get ps(2) show ?thesis by (simp add: trace_step_def ebind_simps)
    qed
  qed
qed

lemma trace_loop_prefix:
  assumes "well_formed ledger" and "\<forall>x\<in>set a. 0 \<le> x \<and> x < int (length ledger)"
  shows "\<exists>ind'. trace_loop ledger (a @ b, traced, ind) =
           trace_loop ledger (b @ concat (map (children ledger) a),
                              traced @ map (\<lambda>k. ledger ! nat k) a, ind')"
  using assms(2)
proof (induction a arbitrary: b traced ind)
  case Nil
  then show ?case by auto
next
  case (Cons x a)
  then have x: "0 \<le> x" "x < int (length ledger)" by simp_all
  from trace_step_well_formed [OF assms(1) x] obtain ind1 where
    step: "trace_step ledger (x # a @ b, traced, ind) =
           Inr ((a @ b) @ children ledger x, traced @ [ledger ! nat x], ind1)"
    by blast
  have "trace_loop ledger ((x # a) @ b, traced, ind) =
      trace_loop ledger (a @ (b @ children ledger x), traced @ [ledger ! nat x], ind1)"
    by (subst trace_loop.simps) (simp add: step)
  moreover from Cons.IH [of "b @ children ledger x" "traced @ [ledger ! nat x]" ind1] Cons.prems
  obtain ind' where
    "trace_loop ledger (a @ (b @ children ledger x), traced @ [ledger ! nat x], ind1) =
     trace_loop ledger ((b @ children ledger x) @ concat (map (children ledger) a),
                        (traced @ [ledger ! nat x]) @ map (\<lambda>k. ledger ! nat k) a, ind')"
    by auto
  ultimately show ?case by (intro exI [of _ ind']) simp
qed

lemma children_in_range:
  assumes "well_formed ledger" and "\<forall>x\<in>set f. 0 \<le> x \<and> x < int (length ledger)"
  shows "\<forall>p\<in>set (concat (map (children ledger) f)). 0 \<le> p \<and> p < int (length ledger)"
proof
  fix p assume "p \<in> set (concat (map (children ledger) f))"
  then obtain x where x: "x \<in> set f" and p: "p \<in> set (children ledger x)" by auto
  from x assms(2) have "0 \<le> x" "x < int (length ledger)" by simp_all
  from well_formed_parents [OF assms(1) this] p
  show "0 \<le> p \<and> p < int (length ledger)" by auto
qed

lemma trace_loop_levels:
  "well_formed ledger \<Longrightarrow> \<forall>x\<in>set f. 0 \<le> x \<and> x < int (length ledger) \<Longrightarrow>
     trace_loop ledger (f, traced, ind) =
       Some (Inr (traced @ map (\<lambda>k. ledger ! nat k) (bfs_levels ledger f)))"
proof (induction ledger f arbitrary: traced ind rule: bfs_levels.induct)
  case (1 ledger f)
  note wf = \<open>well_formed ledger\<close>
  note range = \<open>\<forall>x\<in>set f. 0 \<le> x \<and> x < int (length ledger)\<close>
  show ?case
  proof (cases "f = []")
    case True
    then show ?thesis
      by (subst trace_loop.simps, subst bfs_levels.simps) simp
  next
    case False
    from trace_loop_prefix [OF wf range, of "[]" traced ind] obtain ind' where
      "trace_loop ledger (f, traced, ind) =
       trace_loop ledger (concat (map (children ledger) f),
                          traced @ map (\<lambda>k. ledger ! nat k) f, ind')"
      by auto
    also have "\<dots> = Some (Inr ((traced @ map (\<lambda>k. ledger ! nat k) f) @
        map (\<lambda>k. ledger ! nat k) (bfs_levels ledger (concat (map (children ledger) f)))))"
      by (rule "1.IH" [OF False wf children_in_range [OF wf range]])
    also have "\<dots> = Some (Inr (traced @ map (\<lambda>k. ledger ! nat k) (bfs_levels ledger f)))"
      using False by (subst (2) bfs_levels.simps) simp
    finally show ?thesis .
  qed
qed

lemma trace_back_breadth_first:
  assumes "well_formed ledger" and "0 \<le> i" and "i < int (length ledger)"
  shows "trace_back_to_origin ledger i =
     Some (Inr (map (\<lambda>k. ledger ! nat k) (bfs_levels ledger [i])))"
  unfolding trace_back_to_origin_def
  using trace_loop_levels [of ledger "[i]" "[]" None] assms by simp

lemma trace_back_initial:
  assumes "np_getitem ledger i = Inr r" and "synthesis_type r = ''initial''"
  shows "trace_back_to_origin ledger i = Some (Inr [r])"
proof -
  have step: "trace_step ledger ([i], [], None) = Inr ([], [r], None)"
    using assms by (simp add: trace_step_def ebind_simps)
  have "trace_loop ledger ([i], [], None) = trace_loop ledger ([], [r], None)"
    by (subst trace_loop.simps) (simp add: step)
  also have "\<dots> = Some (Inr [r])"
    by (subst trace_loop.simps) simp
  finally show ?thesis by (simp add: trace_back_to_origin_def)
qed

lemma py_split_interpolation_name:
  "py_split (str_int a @ ''__'' @ str_int b @ ''__'' @ dot_to_dash (str_thousandths k) @ ''.obj'')
     = [str_int a, str_int b, dot_to_dash (str_thousandths k) @ ''.obj'']"
proof -
  have last: "CHR ''_'' \<notin> set (dot_to_dash (str_thousandths k) @ ''.obj'')"
    using str_thousandths_no_underscore [of k] by simp
  show ?thesis
    unfolding py_split_def
    by (simp only: split_dunder_piece [OF str_int_no_underscore] split_dunder_plain [OF last]
        append_Nil)
qed

lemma py_split_arithmetic_name:
  "py_split (str_int a @ ''__'' @ str_int b @ ''__'' @ str_int c @ ''.obj'')
     = [str_int a, str_int b, str_int c @ ''.obj'']"
proof -
  have last: "CHR ''_'' \<notin> set (str_int c @ ''.obj'')"
    using str_int_no_underscore [of c] by simp
  show ?thesis
    unfolding py_split_def
    by (simp only: split_dunder_piece [OF str_int_no_underscore] split_dunder_plain [OF last]
        append_Nil)
qed

lemma interpolation_indices_format:
  assumes "name r = StrName (str_int a @ ''__'' @ str_int b @ ''__''
                              @ dot_to_dash (str_thousandths k) @ ''.obj'')"
  shows "interpolation_indices r = Inr [a, b]"
  unfolding interpolation_indices_def assms name_split_def pyname.case
    py_split_interpolation_name ebind_simps
  by (simp add: ebind_simps py_int_str_int)

lemma arithmetic_indices_format:
  assumes "name r = StrName (str_int a @ ''__'' @ str_int b @ ''__'' @ str_int c @ ''.obj'')"
  shows "arithmetic_indices r = Inr [a, b, c]"
  unfolding arithmetic_indices_def assms name_split_def pyname.case
    py_split_arithmetic_name ebind_simps emap.simps
    remove_obj_plain [OF str_int_no_dot] remove_obj_suffix [OF str_int_no_dot]
  by (simp add: ebind_simps py_int_str_int)

lemma trace_step_interpolation:
  assumes "np_getitem ledger i = Inr r" and "synthesis_type r = ''interpolation''"
    and "name r = StrName (str_int a @ ''__'' @ str_int b @ ''__''
                            @ dot_to_dash (str_thousandths k) @ ''.obj'')"
  shows "trace_step ledger (i # q, traced, ind) = Inr (q @ [a, b], traced @ [r], Some [a, b])"
  using assms(1,2) interpolation_indices_format [OF assms(3)]
  by (simp add: trace_step_def ebind_simps)

lemma trace_step_arithmetic:
  assumes "np_getitem ledger i = Inr r" and "synthesis_type r = ''arithmetic''"
    and "name r = StrName (str_int a @ ''__'' @ str_int b @ ''__'' @ str_int c @ ''.obj'')"
  shows "trace_step ledger (i # q, traced, ind) =
           Inr (q @ [a, b, c], traced @ [r], Some [a, b, c])"
  using assms(1,2) arithmetic_indices_format [OF assms(3)]
  by (simp add: trace_step_def ebind_simps)


text \<open>
  Claim C8. \<^verbatim>\<open>trace_back_to_origin\<close> traverses breadth first from the given index
  and returns the records in the order of discovery without removing duplicates: on a
  well-formed ledger it returns, and its result is the level-by-level traversal, in
  which a record reached along several paths is listed once for each. Called on a
  record of type \<open>initial\<close> it returns the list of that one record. A pass over an
  \<open>interpolation\<close> record, whose name is \<open>i1__i2__factor.obj\<close>, puts exactly the two
  parent indices \<open>i1, i2\<close> at the back of the queue; a pass over an \<open>arithmetic\<close> record,
  whose name is \<open>i1__i2__i3.obj\<close>, puts all of \<open>i1, i2, i3\<close> there.
\<close>

theorem trace_back_to_origin_breadth_first:
  "(well_formed ledger \<and> 0 \<le> i \<and> i < int (length ledger) \<longrightarrow>
      trace_back_to_origin ledger i =
        Some (Inr (map (\<lambda>k. ledger ! nat k) (bfs_levels ledger [i]))))
   \<and> (np_getitem ledger i = Inr r \<and> synthesis_type r = ''initial'' \<longrightarrow>
        trace_back_to_origin ledger i = Some (Inr [r]))
   \<and> (np_getitem ledger i = Inr r \<and> synthesis_type r = ''interpolation''
        \<and> name r = StrName (str_int a @ ''__'' @ str_int b @ ''__''
                              @ dot_to_dash (str_thousandths k) @ ''.obj'') \<longrightarrow>
        trace_step ledger (i # q, traced, ind) = Inr (q @ [a, b], traced @ [r], Some [a, b]))
   \<and> (np_getitem ledger i = Inr r \<and> synthesis_type r = ''arithmetic''
        \<and> name r = StrName (str_int a @ ''__'' @ str_int b @ ''__'' @ str_int c @ ''.obj'') \<longrightarrow>
        trace_step ledger (i # q, traced, ind) =
          Inr (q @ [a, b, c], traced @ [r], Some [a, b, c]))"
  using trace_back_breadth_first [of ledger i] trace_back_initial [of ledger i r]
    trace_step_interpolation [of ledger i r a b k q traced ind]
    trace_step_arithmetic [of ledger i r a b c q traced ind]
  by blast

theorem trace_back_to_origin_breadth_first_witness:
  "well_formed example_ledger \<and> (0 :: int) \<le> 4 \<and> (4 :: int) < int (length example_ledger)
   \<and> bfs_levels example_ledger [4] = [4, 3, 0, 0, 1]
   \<and> trace_back_to_origin example_ledger 4 =
       Some (Inr [example_ledger ! 4, example_ledger ! 3, example_ledger ! 0, example_ledger ! 0,
                  example_ledger ! 1])
   \<and> np_getitem example_ledger 0 = Inr (example_ledger ! 0)
   \<and> synthesis_type (example_ledger ! 0) = ''initial''
   \<and> trace_back_to_origin example_ledger 0 = Some (Inr [example_ledger ! 0])
   \<and> np_getitem example_ledger 3 = Inr (example_ledger ! 3)
   \<and> synthesis_type (example_ledger ! 3) = ''interpolation''
   \<and> name (example_ledger ! 3) =
       StrName (str_int 0 @ ''__'' @ str_int 1 @ ''__'' @ dot_to_dash (str_thousandths 500) @ ''.obj'')
   \<and> trace_step example_ledger ([3], [], None) = Inr ([0, 1], [example_ledger ! 3], Some [0, 1])
   \<and> np_getitem (data after_one_synthesis) 3 = Inr synthesized_record
   \<and> synthesis_type synthesized_record = ''arithmetic''
   \<and> name synthesized_record =
       StrName (str_int 2 @ ''__'' @ str_int 0 @ ''__'' @ str_int 1 @ ''.obj'')
   \<and> trace_step (data after_one_synthesis) ([3], [], None) =
       Inr ([2, 0, 1], [synthesized_record], Some [2, 0, 1])"
proof -
  have wf: "well_formed example_ledger \<and> (0 :: int) \<le> 4 \<and> (4 :: int) < int (length example_ledger)"
    by code_simp
  have levels: "bfs_levels example_ledger [4] = [4, 3, 0, 0, 1]"
    by code_simp
  have init: "np_getitem example_ledger 0 = Inr (example_ledger ! 0)
      \<and> synthesis_type (example_ledger ! 0) = ''initial''"
    by code_simp
  have interp: "np_getitem example_ledger 3 = Inr (example_ledger ! 3)
      \<and> synthesis_type (example_ledger ! 3) = ''interpolation''
      \<and> name (example_ledger ! 3) =
          StrName (str_int 0 @ ''__'' @ str_int 1 @ ''__'' @ dot_to_dash (str_thousandths 500)
                   @ ''.obj'')"
    by code_simp
  have arith: "np_getitem (data after_one_synthesis) 3 = Inr synthesized_record
      \<and> synthesis_type synthesized_record = ''arithmetic''
      \<and> name synthesized_record =
          StrName (str_int 2 @ ''__'' @ str_int 0 @ ''__'' @ str_int 1 @ ''.obj'')"
    by code_simp
  from trace_back_to_origin_breadth_first [of example_ledger 4, THEN conjunct1, THEN mp, OF wf]
  have 1: "trace_back_to_origin example_ledger 4 =
       Some (Inr [example_ledger ! 4, example_ledger ! 3, example_ledger ! 0, example_ledger ! 0,
                  example_ledger ! 1])"
    by (simp add: levels)
  from trace_back_to_origin_breadth_first [of example_ledger 0 "example_ledger ! 0",
      THEN conjunct2, THEN conjunct1, THEN mp, OF init]
  have 2: "trace_back_to_origin example_ledger 0 = Some (Inr [example_ledger ! 0])" .
  from trace_back_to_origin_breadth_first [of example_ledger 3 "example_ledger ! 3" 0 1 500
      "[]" "[]" None, THEN conjunct2, THEN conjunct2, THEN conjunct1, THEN mp, OF interp]
  have 3: "trace_step example_ledger ([3], [], None) =
      Inr ([0, 1], [example_ledger ! 3], Some [0, 1])"
    by simp
  from trace_back_to_origin_breadth_first [of "data after_one_synthesis" 3 synthesized_record
      2 0 _ "[]" "[]" None 1, THEN conjunct2, THEN conjunct2, THEN conjunct2, THEN mp, OF arith]
  have 4: "trace_step (data after_one_synthesis) ([3], [], None) =
       Inr ([2, 0, 1], [synthesized_record], Some [2, 0, 1])"
    by simp
  from wf levels init interp arith 1 2 3 4 show ?thesis by (intro conjI) (elim conjE, assumption)+
qed

section \<open>Ledgers written by the synthesis loop can be traced\<close>

text \<open>
  Every record that the loop appends names parents that were in the ledger before it, by
  their indices. So a ledger that started from the seeded one stays indexed and well
  formed, and \<^verbatim>\<open>trace_back_to_origin\<close> returns on it from every position.
\<close>

lemma random_sample_members:
  assumes "random_sample rnd pool k = Inr picked"
  shows "length picked = k \<and> set picked \<subseteq> set pool"
proof -
  from assms have len: "k \<le> length pool"
    and picked: "picked = sample_from pool (map rnd [0..<k])"
    by (auto simp: random_sample_def split: if_splits)
  have "length (map rnd [0..<k]) \<le> length pool" using len by simp
  from sample_from_positions [OF this] obtain ps where ps: "length ps = k"
      "\<forall>p\<in>set ps. p < length pool" "sample_from pool (map rnd [0..<k]) = map ((!) pool) ps"
    by auto
  then show ?thesis unfolding picked by auto
qed

lemma interpolation_synthesis_char:
  assumes "random_interpolation_synthesis dec dr ledger = Inr (sel, k, code)"
  shows "\<exists>e0 e1. e0 \<in> set ledger \<and> e1 \<in> set ledger
           \<and> sel = str_int (index e0) @ ''__'' @ str_int (index e1)"
proof -
  define pool where "pool = filter (\<lambda>rd. synthesis_type rd \<noteq> ''arithmetic'')
                 (if restrict_draw dr < 1 / 2 then take (length (latent_codes dec)) ledger
                  else ledger)"
  have sub: "set pool \<subseteq> set ledger"
    unfolding pool_def by (auto dest: in_set_takeD)
  from assms obtain picked where picked: "random_sample (sample_draw dr) pool 2 = Inr picked"
    and sel: "sel = str_int (index (picked ! 0)) @ ''__'' @ str_int (index (picked ! 1))"
    unfolding random_interpolation_synthesis_def Let_def pool_def [symmetric]
    by (cases "random_sample (sample_draw dr) pool 2")
       (auto simp: ebind_def split: sum.splits)
  from random_sample_members [OF picked] have "length picked = 2" "set picked \<subseteq> set pool"
    by simp_all
  then have "picked ! 0 \<in> set ledger" "picked ! 1 \<in> set ledger"
    using sub by (auto simp: subset_iff)
  with sel show ?thesis by blast
qed

lemma arithmetic_synthesis_members:
  assumes "random_arithmetic_operations_synthesis dec dr ledger = Inr (sel, code)"
  shows "\<exists>e0 e1 e2. e0 \<in> set ledger \<and> e1 \<in> set ledger \<and> e2 \<in> set ledger
           \<and> sel = str_int (index e0) @ ''__'' @ str_int (index e1) @ ''__'' @ str_int (index e2)"
proof -
  from arithmetic_synthesis_char [OF assms] obtain pool p0 p1 p2 where
    pool: "pool = filter (\<lambda>rd. synthesis_type rd \<noteq> ''interpolation'')
                 (if restrict_draw dr < 1 / 2 then take (length (latent_codes dec)) ledger
                  else ledger)"
    and p: "p0 < length pool" "p1 < length pool" "p2 < length pool"
    and sel: "sel = str_int (index (pool ! p0)) @ ''__'' @ str_int (index (pool ! p1)) @ ''__''
               @ str_int (index (pool ! p2))"
    by blast
  have sub: "set pool \<subseteq> set ledger"
    unfolding pool by (auto dest: in_set_takeD)
  from p have "pool ! p0 \<in> set pool" "pool ! p1 \<in> set pool" "pool ! p2 \<in> set pool"
    by simp_all
  with sub sel show ?thesis by blast
qed

lemma candidate_char:
  assumes "candidate dec dr ledger = Inr (ty, nm, code)"
  shows "(ty = ''arithmetic'' \<and> (\<exists>e0 e1 e2. e0 \<in> set ledger \<and> e1 \<in> set ledger \<and> e2 \<in> set ledger
            \<and> nm = str_int (index e0) @ ''__'' @ str_int (index e1) @ ''__''
                   @ str_int (index e2) @ ''.obj''))
     \<or> (ty = ''interpolation'' \<and> (\<exists>e0 e1 k. e0 \<in> set ledger \<and> e1 \<in> set ledger
            \<and> nm = str_int (index e0) @ ''__'' @ str_int (index e1) @ ''__''
                   @ dot_to_dash (str_thousandths k) @ ''.obj''))"
proof (cases "operation_draw dr < 1 / 2")
  case True
  with assms obtain sel where
    run: "random_arithmetic_operations_synthesis dec dr ledger = Inr (sel, code)"
    and ty: "ty = ''arithmetic''" and nm: "nm = sel @ ''.obj''"
    by (cases "random_arithmetic_operations_synthesis dec dr ledger")
       (auto simp: candidate_def ebind_simps)
  from arithmetic_synthesis_members [OF run] obtain e0 e1 e2 where
    e: "e0 \<in> set ledger" "e1 \<in> set ledger" "e2 \<in> set ledger"
      "sel = str_int (index e0) @ ''__'' @ str_int (index e1) @ ''__'' @ str_int (index e2)"
    by blast
  have "nm = str_int (index e0) @ ''__'' @ str_int (index e1) @ ''__''
                   @ str_int (index e2) @ ''.obj''"
    using nm e(4) by simp
  with ty e(1,2,3) show ?thesis by blast
next
  case False
  with assms obtain sel k where
    run: "random_interpolation_synthesis dec dr ledger = Inr (sel, k, code)"
    and ty: "ty = ''interpolation''"
    and nm: "nm = sel @ ''__'' @ dot_to_dash (str_thousandths k) @ ''.obj''"
    by (cases "random_interpolation_synthesis dec dr ledger")
       (auto simp: candidate_def ebind_simps)
  from interpolation_synthesis_char [OF run] obtain e0 e1 where
    e: "e0 \<in> set ledger" "e1 \<in> set ledger"
      "sel = str_int (index e0) @ ''__'' @ str_int (index e1)"
    by blast
  have "nm = str_int (index e0) @ ''__'' @ str_int (index e1) @ ''__''
                   @ dot_to_dash (str_thousandths k) @ ''.obj''"
    using nm e(3) by simp
  with ty e(1,2) show ?thesis by blast
qed


lemma indexed_member:
  assumes "indexed ledger" and "e \<in> set ledger"
  shows "0 \<le> index e \<and> index e < int (length ledger)"
proof -
  from assms(2) obtain j where "j < length ledger" "e = ledger ! j"
    by (auto simp: in_set_conv_nth)
  with assms(1) show ?thesis by (simp add: indexed_def)
qed

lemma well_formed_append:
  "well_formed (ledger @ [r]) \<longleftrightarrow> well_formed ledger \<and> well_formed_at (length ledger) r"
  by (simp add: well_formed_def enumerate_append_eq)

lemma indexed_append:
  "indexed ledger \<Longrightarrow> index r = int (length ledger) \<Longrightarrow> indexed (ledger @ [r])"
  by (auto simp: indexed_def nth_append less_Suc_eq)

lemma candidate_record_well_formed:
  assumes "candidate dec dr ledger = Inr (ty, nm, code)" and "indexed ledger"
  shows "well_formed_at (length ledger)
           \<lparr>name = StrName nm, index = i, synthesis_type = ty, latent_code = code\<rparr>"
proof -
  let ?r = "\<lparr>name = StrName nm, index = i, synthesis_type = ty, latent_code = code\<rparr>"
  from candidate_char [OF assms(1)] show ?thesis
  proof
    assume "ty = ''arithmetic'' \<and> (\<exists>e0 e1 e2. e0 \<in> set ledger \<and> e1 \<in> set ledger \<and> e2 \<in> set ledger
            \<and> nm = str_int (index e0) @ ''__'' @ str_int (index e1) @ ''__''
                   @ str_int (index e2) @ ''.obj'')"
    then obtain e0 e1 e2 where ty: "ty = ''arithmetic''"
      and e: "e0 \<in> set ledger" "e1 \<in> set ledger" "e2 \<in> set ledger"
      and nm: "nm = str_int (index e0) @ ''__'' @ str_int (index e1) @ ''__''
                   @ str_int (index e2) @ ''.obj''"
      by blast
    have "name ?r = StrName (str_int (index e0) @ ''__'' @ str_int (index e1) @ ''__''
                   @ str_int (index e2) @ ''.obj'')"
      by (simp add: nm)
    from arithmetic_indices_format [OF this]
    have "parent_indices ?r = Inr [index e0, index e1, index e2]"
      by (simp add: parent_indices_def ty)
    with e [THEN indexed_member [OF assms(2)]] show ?thesis
      by (simp add: well_formed_at_def)
  next
    assume "ty = ''interpolation'' \<and> (\<exists>e0 e1 k. e0 \<in> set ledger \<and> e1 \<in> set ledger
            \<and> nm = str_int (index e0) @ ''__'' @ str_int (index e1) @ ''__''
                   @ dot_to_dash (str_thousandths k) @ ''.obj'')"
    then obtain e0 e1 k where ty: "ty = ''interpolation''"
      and e: "e0 \<in> set ledger" "e1 \<in> set ledger"
      and nm: "nm = str_int (index e0) @ ''__'' @ str_int (index e1) @ ''__''
                   @ dot_to_dash (str_thousandths k) @ ''.obj''"
      by blast
    have "name ?r = StrName (str_int (index e0) @ ''__'' @ str_int (index e1) @ ''__''
                   @ dot_to_dash (str_thousandths k) @ ''.obj'')"
      by (simp add: nm)
    from interpolation_indices_format [OF this]
    have "parent_indices ?r = Inr [index e0, index e1]"
      by (simp add: parent_indices_def ty)
    with e [THEN indexed_member [OF assms(2)]] show ?thesis
      by (simp add: well_formed_at_def)
  qed
qed

lemma iteration_keeps_invariant:
  assumes "iteration rc dec save_dir resolution mz cw dr s = Inr (out, s')"
    and "indexed (data s)" and "well_formed (data s)"
  shows "indexed (data s') \<and> well_formed (data s')"
proof -
  from assms(1) obtain ty nm code where cand: "candidate dec dr (data s) = Inr (ty, nm, code)"
    by (cases "candidate dec dr (data s)") (auto simp: iteration_def ebind_simps)
  show ?thesis
  proof (cases "files s (os_path_join save_dir nm) = None")
    case False
    with assms iteration_skip [OF cand] show ?thesis by auto
  next
    case True
    with assms(1) cand obtain mo s1 where
      syn: "synthesize rc dec code (Some (os_path_join save_dir nm)) resolution True mz cw s
              = Inr (mo, s1)"
      by (cases "synthesize rc dec code (Some (os_path_join save_dir nm)) resolution True mz cw s")
         (auto simp: iteration_def ebind_simps)
    from synthesize_effect [OF syn] have d: "data s1 = data s" by simp
    from assms(1) iteration_extend [OF cand True syn] d have
      "data s' = data s @ [\<lparr>name = StrName nm, index = int (length (data s)),
                             synthesis_type = ty, latent_code = code\<rparr>]"
      by auto
    with assms(2,3) candidate_record_well_formed [OF cand assms(2)] show ?thesis
      by (simp add: well_formed_append indexed_append)
  qed
qed

lemma synthesis_loop_keeps_invariant:
  assumes "synthesis_loop rc dec save_dir cnt resolution mz cw drs s = Inr (outs, s')"
    and "indexed (data s)" and "well_formed (data s)"
  shows "indexed (data s') \<and> well_formed (data s')"
  using assms
proof (induction drs arbitrary: s outs s')
  case Nil
  then show ?case by simp
next
  case (Cons dr drs)
  show ?case
  proof (cases "enat (length (data s)) < cnt")
    case False
    with Cons.prems show ?thesis by simp
  next
    case True
    with Cons.prems obtain out s1 where
      it: "iteration rc dec save_dir resolution mz cw dr s = Inr (out, s1)"
      by (cases "iteration rc dec save_dir resolution mz cw dr s") (auto simp: ebind_simps)
    with True Cons.prems obtain outs1 where
      rest: "synthesis_loop rc dec save_dir cnt resolution mz cw drs s1 = Inr (outs1, s')"
      by (cases "synthesis_loop rc dec save_dir cnt resolution mz cw drs s1")
         (auto simp: ebind_simps)
    from iteration_keeps_invariant [OF it Cons.prems(2,3)]
    have "indexed (data s1)" "well_formed (data s1)" by simp_all
    from Cons.IH [OF rest this] show ?thesis .
  qed
qed

lemma seed_ledger_invariant: "indexed (seed_ledger dec) \<and> well_formed (seed_ledger dec)"
proof -
  have at: "well_formed_at k r" if "synthesis_type r = ''initial''" for k r
    using that by (simp add: well_formed_at_def parent_indices_def)
  have ty: "synthesis_type r = ''initial''" if "r \<in> set (seed_ledger dec)" for r
    using that by (auto simp: seed_ledger_def)
  have "well_formed_at k r" if "(k, r) \<in> set (List.enumerate 0 (seed_ledger dec))" for k r
  proof -
    from that have "r \<in> set (seed_ledger dec)" by (auto simp: in_set_enumerate_eq)
    then show ?thesis by (intro at ty)
  qed
  then have "well_formed (seed_ledger dec)"
    unfolding well_formed_def list_all_iff by blast
  moreover have "indexed (seed_ledger dec)"
    by (simp add: indexed_def seed_ledger_length seed_ledger_index)
  ultimately show ?thesis by simp
qed

lemma written_ledger_traces:
  assumes "fs (ledger_path save_dir) = None"
    and "infinite_synthesis rc dec save_dir cnt resolution mz cw drs fs = Inr (outs, s)"
  shows "well_formed (data s)
     \<and> (\<forall>i. 0 \<le> i \<and> i < int (length (data s)) \<longrightarrow>
          trace_back_to_origin (data s) i =
            Some (Inr (map (\<lambda>k. data s ! nat k) (bfs_levels (data s) [i]))))"
proof -
  from infinite_synthesis_seeded [OF assms] obtain fs1 where
    "synthesis_loop rc dec save_dir cnt resolution mz cw drs
       \<lparr>data = seed_ledger dec, files = fs1, events = []\<rparr> = Inr (outs, s)"
    by blast
  from synthesis_loop_keeps_invariant [OF this] seed_ledger_invariant [of dec]
  have "well_formed (data s)" by simp
  then show ?thesis using trace_back_breadth_first by blast
qed


lemma candidate_interpolation_example:
  "candidate zero_decoder interpolation_draws (seed_ledger zero_decoder)
     = Inr (''interpolation'', ''0__1__0-5.obj'', [1, 1])"
  by code_simp

end
